theory Spec2Isabelle
  imports Main
begin

section \<open>Data model of cnss\_prealloc.c\<close>

text \<open>
  An address is a \<^verbatim>\<open>void *\<close>; the null pointer is \<open>0\<close>.  A tracking-table slot
  holding \<open>0\<close> is an empty slot.
\<close>

type_synonym addr = nat

text \<open>
  What C leaves undefined is a value of the model: dereferencing a null pointer and
  reading an array beyond the block that was allocated for it.
\<close>

datatype fault = NullDeref | OutOfBounds

text \<open>
  The kernel's mempool is not part of this module.  A \<^verbatim>\<open>mempool_t\<close> is modelled by the
  requests the module has made to it, newest first: each \<^verbatim>\<open>mempool_alloc\<close> with the
  pointer it returned (\<open>0\<close> when it returned NULL) and each \<^verbatim>\<open>mempool_free\<close> with the
  pointer it was given.  What \<^verbatim>\<open>mempool_alloc\<close> returns is an input of the model.
\<close>

datatype mp_call = MpAlloc addr | MpFree addr

type_synonym mempool = "mp_call list"

definition mempool_alloc :: "mempool \<Rightarrow> addr \<Rightarrow> mempool" where
  "mempool_alloc h res = MpAlloc res # h"

definition mempool_free :: "addr \<Rightarrow> mempool \<Rightarrow> mempool" where
  "mempool_free mem h = MpFree mem # h"

text \<open>
  \<^verbatim>\<open>struct cnss_pool\<close>.  \<open>mp\<close> and \<open>pool_ptrs\<close> are \<open>None\<close> for a NULL pointer;
  \<open>pool_ptrs = Some t\<close> is a block of \<open>length t\<close> slots.  \<open>cache\<close> only records whether
  the pointer is non-NULL.  \<open>min\<close> and \<open>table_capacity\<close> are \<^verbatim>\<open>int\<close>s of the source
  that start at a non-negative constant; \<open>table_capacity\<close> is only ever incremented by
  one together with a table of that many pointers that \<^verbatim>\<open>krealloc\<close> has returned, which
  keeps it far below \<open>2\<^sup>3\<^sup>1\<close>.  So they are natural numbers here, and so is the
  \<^verbatim>\<open>size_t\<close> block size, which is only compared.
\<close>

record cnss_pool =
  size_f :: nat
  min_f :: nat
  name :: string
  mp :: "mempool option"
  cache :: bool
  pool_ptrs :: "addr list option"
  table_capacity :: nat

text \<open>
  The global \<^verbatim>\<open>cnss_pools\<close> is NULL (\<open>None\<close>) until a profile is bound;
  \<^verbatim>\<open>cnss_prealloc_pool_size\<close> is the length of the bound array (the source assigns both
  together, from \<^verbatim>\<open>ARRAY_SIZE\<close> of the chosen table).
\<close>

type_synonym prealloc = "cnss_pool list option"

definition EPERM :: int where
  "EPERM = 1"

section \<open>The static tier tables\<close>

definition mk_pool :: "nat \<Rightarrow> nat \<Rightarrow> string \<Rightarrow> cnss_pool" where
  "mk_pool sz mn nm =
     \<lparr>size_f = sz, min_f = mn, name = nm, mp = None, cache = False,
      pool_ptrs = None, table_capacity = 0\<rparr>"

definition cnss_pools_default :: "cnss_pool list" where
  "cnss_pools_default =
     [mk_pool (8 * 1024) 16 ''cnss-pool-8k'',
      mk_pool (16 * 1024) 16 ''cnss-pool-16k'',
      mk_pool (32 * 1024) 22 ''cnss-pool-32k'',
      mk_pool (64 * 1024) 38 ''cnss-pool-64k'',
      mk_pool (128 * 1024) 10 ''cnss-pool-128k'']"

definition cnss_pools_adrastea :: "cnss_pool list" where
  "cnss_pools_adrastea =
     [mk_pool (8 * 1024) 2 ''cnss-pool-8k'',
      mk_pool (16 * 1024) 10 ''cnss-pool-16k'',
      mk_pool (32 * 1024) 8 ''cnss-pool-32k'',
      mk_pool (64 * 1024) 4 ''cnss-pool-64k'',
      mk_pool (128 * 1024) 2 ''cnss-pool-128k'']"

definition cnss_pools_wcn6750 :: "cnss_pool list" where
  "cnss_pools_wcn6750 =
     [mk_pool (8 * 1024) 2 ''cnss-pool-8k'',
      mk_pool (16 * 1024) 8 ''cnss-pool-16k'',
      mk_pool (32 * 1024) 11 ''cnss-pool-32k'',
      mk_pool (64 * 1024) 15 ''cnss-pool-64k'',
      mk_pool (128 * 1024) 4 ''cnss-pool-128k'']"

section \<open>Tracking-table slots\<close>

text \<open>\<^verbatim>\<open>pool_table[ptr_idx]\<close>, read.\<close>

definition read_slot :: "addr list option \<Rightarrow> nat \<Rightarrow> fault + addr" where
  "read_slot tbl k =
     (case tbl of
        None \<Rightarrow> Inl NullDeref
      | Some t \<Rightarrow> if k < length t then Inr (t ! k) else Inl OutOfBounds)"

text \<open>
  The scan \<^verbatim>\<open>for (ptr_idx = 0; ptr_idx < table_capacity; ptr_idx++)\<close> of both slot
  routines, up to the first slot whose content equals \<open>v\<close>: \<open>v = 0\<close> is the test
  \<^verbatim>\<open>!pool_table[ptr_idx]\<close> of the insert, \<open>v = mem\<close> the test
  \<^verbatim>\<open>pool_table[ptr_idx] == mem\<close> of the remove.  \<open>Inr None\<close>: the loop ran to the end.
\<close>

function scan_slots :: "addr list option \<Rightarrow> nat \<Rightarrow> addr \<Rightarrow> nat \<Rightarrow> fault + nat option" where
  "scan_slots tbl cap v ptr_idx =
     (if ptr_idx < cap then
        (case read_slot tbl ptr_idx of
           Inl f \<Rightarrow> Inl f
         | Inr x \<Rightarrow> if x = v then Inr (Some ptr_idx) else scan_slots tbl cap v (Suc ptr_idx))
      else Inr None)"
  by pat_completeness auto
termination
  by (relation "measure (\<lambda>(tbl, cap, v, ptr_idx). cap - ptr_idx)") auto

text \<open>
  \<^verbatim>\<open>wcnss_find_pool_table_slot\<close> on the tier \<open>p = cnss_pools[pool]\<close>, returning the
  \<^verbatim>\<open>int\<close> result and the tier as it is left.  \<open>krealloc_ok\<close> says whether \<^verbatim>\<open>krealloc\<close>
  returns a block.  A block that \<^verbatim>\<open>krealloc\<close> returns holds the old content in its first
  slots; the scan has read all \<open>table_capacity\<close> slots when the growth is reached, and
  slot \<open>table_capacity\<close> of the new block is written at once, so the new block holds the
  old \<open>table_capacity\<close> slots followed by \<open>mem\<close>.  When \<^verbatim>\<open>krealloc\<close> returns NULL the
  pointer has already been overwritten by the assignment.
\<close>

definition wcnss_find_pool_table_slot :: "bool \<Rightarrow> cnss_pool \<Rightarrow> addr \<Rightarrow> fault + (int \<times> cnss_pool)" where
  "wcnss_find_pool_table_slot krealloc_ok p mem =
     (case scan_slots (pool_ptrs p) (table_capacity p) 0 0 of
        Inl f \<Rightarrow> Inl f
      | Inr (Some ptr_idx) \<Rightarrow>
          Inr (0, p\<lparr>pool_ptrs := map_option (\<lambda>t. t[ptr_idx := mem]) (pool_ptrs p)\<rparr>)
      | Inr None \<Rightarrow>
          if krealloc_ok then
            Inr (0, p\<lparr>pool_ptrs :=
                         Some (take (table_capacity p)
                                 (case pool_ptrs p of None \<Rightarrow> [] | Some t \<Rightarrow> t) @ [mem]),
                       table_capacity := table_capacity p + 1\<rparr>)
          else Inr (- EPERM, p\<lparr>pool_ptrs := None\<rparr>))"

text \<open>
  \<^verbatim>\<open>wcnss_free_pool_table_slot\<close>.  The tier is passed by value, but its \<open>pool_ptrs\<close>
  points to the shared table, so clearing the slot changes the tier's table.
\<close>

definition wcnss_free_pool_table_slot :: "cnss_pool \<Rightarrow> addr \<Rightarrow> fault + (int \<times> cnss_pool)" where
  "wcnss_free_pool_table_slot mempool mem =
     (case scan_slots (pool_ptrs mempool) (table_capacity mempool) mem 0 of
        Inl f \<Rightarrow> Inl f
      | Inr (Some ptr_idx) \<Rightarrow>
          Inr (int ptr_idx,
               mempool\<lparr>pool_ptrs := map_option (\<lambda>t. t[ptr_idx := 0]) (pool_ptrs mempool)\<rparr>)
      | Inr None \<Rightarrow> Inr (- EPERM, mempool))"

section \<open>Acquire\<close>

text \<open>\<^verbatim>\<open>cnss_pool_alloc_threshold\<close>: \<^verbatim>\<open>cnss_pools[0].size\<close>.\<close>

definition cnss_pool_alloc_threshold :: "cnss_pool list \<Rightarrow> fault + nat" where
  "cnss_pool_alloc_threshold ps =
     (case ps of [] \<Rightarrow> Inl OutOfBounds | p # _ \<Rightarrow> Inr (size_f p))"

text \<open>
  The tier loop of \<^verbatim>\<open>wcnss_prealloc_get\<close>, from index \<open>i\<close>.  \<open>alloc i\<close> is what
  \<^verbatim>\<open>mempool_alloc\<close> returns for tier \<open>i\<close> in this call (the blocking mode is passed
  through to it and decides nothing else).  The result is the tiers, and \<open>i\<close>, \<open>mem\<close>
  and \<open>ret\<close> as the loop leaves them: a \<^verbatim>\<open>break\<close> leaves \<open>i\<close> at the tier, the end of the
  loop at \<^verbatim>\<open>cnss_prealloc_pool_size\<close>.
\<close>

function get_loop :: "(nat \<Rightarrow> addr) \<Rightarrow> bool \<Rightarrow> nat \<Rightarrow> cnss_pool list \<Rightarrow> nat
    \<Rightarrow> fault + (cnss_pool list \<times> nat \<times> addr \<times> int)" where
  "get_loop alloc krealloc_ok sz ps i =
     (if i < length ps then
        (if size_f (ps ! i) \<ge> sz \<and> mp (ps ! i) \<noteq> None then
           (if pool_ptrs (ps ! i) = None then Inr (ps, i, 0, 0)
            else
              (let mem = alloc i;
                   p1 = (ps ! i)\<lparr>mp := map_option (\<lambda>h. mempool_alloc h mem) (mp (ps ! i))\<rparr>
               in if mem \<noteq> 0 then
                    (case wcnss_find_pool_table_slot krealloc_ok p1 mem of
                       Inl f \<Rightarrow> Inl f
                     | Inr (ret, p2) \<Rightarrow> Inr (ps[i := p2], i, mem, ret))
                  else get_loop alloc krealloc_ok sz (ps[i := p1]) (Suc i)))
         else get_loop alloc krealloc_ok sz ps (Suc i))
      else Inr (ps, i, 0, 0))"
  by pat_completeness auto
termination
  by (relation "measure (\<lambda>(alloc, krealloc_ok, sz, ps, i). length ps - i)") auto

text \<open>
  \<^verbatim>\<open>wcnss_prealloc_get\<close>: the pointer returned and the state left.  After a failed
  insert (\<open>ret < 0\<close>) the block goes back with \<^verbatim>\<open>mempool_free(mem, cnss_pools[i].mp)\<close>.
  The diagnostic messages are not part of the model.
\<close>

definition wcnss_prealloc_get :: "(nat \<Rightarrow> addr) \<Rightarrow> bool \<Rightarrow> prealloc \<Rightarrow> nat \<Rightarrow> fault + (addr \<times> prealloc)" where
  "wcnss_prealloc_get alloc krealloc_ok s sz =
     (case s of
        None \<Rightarrow> Inr (0, s)
      | Some ps \<Rightarrow>
          (case cnss_pool_alloc_threshold ps of
             Inl f \<Rightarrow> Inl f
           | Inr th \<Rightarrow>
               if sz \<ge> th then
                 (case get_loop alloc krealloc_ok sz ps 0 of
                    Inl f \<Rightarrow> Inl f
                  | Inr (ps1, i, mem, ret) \<Rightarrow>
                      if ret < 0 then
                        Inr (0, Some (ps1[i := (ps1 ! i)\<lparr>mp := map_option (mempool_free mem) (mp (ps1 ! i))\<rparr>]))
                      else Inr (mem, Some ps1))
               else Inr (0, s)))"

section \<open>Release (table-scan variant)\<close>

text \<open>
  The tier loop of \<^verbatim>\<open>wcnss_prealloc_put\<close> as compiled for kernels from 5.17 on: the
  \<^verbatim>\<open>int\<close> returned and the tiers left.
\<close>

function put_loop :: "addr \<Rightarrow> cnss_pool list \<Rightarrow> nat \<Rightarrow> fault + (int \<times> cnss_pool list)" where
  "put_loop mem ps i =
     (if i < length ps then
        (if mp (ps ! i) \<noteq> None then
           (if pool_ptrs (ps ! i) = None then Inr (0, ps)
            else
              (case wcnss_free_pool_table_slot (ps ! i) mem of
                 Inl f \<Rightarrow> Inl f
               | Inr (ret, p1) \<Rightarrow>
                   if ret \<ge> 0 then
                     Inr (1, ps[i := p1\<lparr>mp := map_option (mempool_free mem) (mp p1)\<rparr>])
                   else put_loop mem (ps[i := p1]) (Suc i)))
         else put_loop mem ps (Suc i))
      else Inr (0, ps))"
  by pat_completeness auto
termination
  by (relation "measure (\<lambda>(mem, ps, i). length ps - i)") auto

definition wcnss_prealloc_put :: "prealloc \<Rightarrow> addr \<Rightarrow> fault + (int \<times> prealloc)" where
  "wcnss_prealloc_put s mem =
     (case s of
        None \<Rightarrow> Inr (0, s)
      | Some ps \<Rightarrow>
          if mem = 0 then Inr (0, s)
          else (case put_loop mem ps 0 of
                  Inl f \<Rightarrow> Inl f
                | Inr (r, ps1) \<Rightarrow> Inr (r, Some ps1)))"

section \<open>Leak audit\<close>

text \<open>One \<^verbatim>\<open>pr_err\<close> line of the audit: the pointer, the tier's name and the slot index.\<close>

type_synonym leak_report = "addr \<times> string \<times> nat"

text \<open>
  The inner loop of \<^verbatim>\<open>wcnss_check_pool_lists\<close> over the slots of one tier; \<open>out\<close>
  is what has been printed so far.
\<close>

function check_slots :: "addr list option \<Rightarrow> nat \<Rightarrow> string \<Rightarrow> nat \<Rightarrow> leak_report list
    \<Rightarrow> fault + leak_report list" where
  "check_slots pool count nm ptr_idx out =
     (if ptr_idx < count then
        (case read_slot pool ptr_idx of
           Inl f \<Rightarrow> Inl f
         | Inr x \<Rightarrow>
             check_slots pool count nm (Suc ptr_idx)
               (if x \<noteq> 0 then out @ [(x, nm, ptr_idx)] else out))
      else Inr out)"
  by pat_completeness auto
termination
  by (relation "measure (\<lambda>(pool, count, nm, ptr_idx, out). count - ptr_idx)") auto

function check_pools :: "cnss_pool list \<Rightarrow> nat \<Rightarrow> leak_report list \<Rightarrow> fault + leak_report list" where
  "check_pools ps i out =
     (if i < length ps then
        (case check_slots (pool_ptrs (ps ! i)) (table_capacity (ps ! i)) (name (ps ! i)) 0 out of
           Inl f \<Rightarrow> Inl f
         | Inr out1 \<Rightarrow> check_pools ps (Suc i) out1)
      else Inr out)"
  by pat_completeness auto
termination
  by (relation "measure (\<lambda>(ps, i, out). length ps - i)") auto

text \<open>
  \<^verbatim>\<open>wcnss_check_pool_lists\<close>: the lines printed and the state left.  The routine does
  not test \<^verbatim>\<open>cnss_pools\<close>; before a profile is bound \<^verbatim>\<open>cnss_prealloc_pool_size\<close> is
  5 and \<^verbatim>\<open>cnss_pools[0]\<close> is read through the NULL pointer.
\<close>

definition wcnss_check_pool_lists :: "prealloc \<Rightarrow> fault + (leak_report list \<times> prealloc)" where
  "wcnss_check_pool_lists s =
     (case s of
        None \<Rightarrow> Inl NullDeref
      | Some ps \<Rightarrow>
          (case check_pools ps 0 [] of
             Inl f \<Rightarrow> Inl f
           | Inr out \<Rightarrow> Inr (out, s)))"

section \<open>Initialisation\<close>

text \<open>
  What the kernel answers while tier \<open>i\<close> is set up: whether
  \<^verbatim>\<open>kmem_cache_create_usercopy\<close> and \<^verbatim>\<open>mempool_create\<close> return an object, and what
  \<^verbatim>\<open>kmalloc\<close> returns for the table: NULL, or a block whose slot \<open>k\<close> holds \<open>c k\<close>
  (\<^verbatim>\<open>kmalloc\<close> does not clear the block).
\<close>

record init_res =
  cache_ok :: bool
  mempool_ok :: bool
  kmalloc_res :: "(nat \<Rightarrow> addr) option"

text \<open>The body of the loop of \<^verbatim>\<open>cnss_pool_init\<close> for one tier.\<close>

definition init_tier :: "init_res \<Rightarrow> cnss_pool \<Rightarrow> cnss_pool" where
  "init_tier r p =
     (if \<not> cache_ok r then p\<lparr>cache := False\<rparr>
      else if \<not> mempool_ok r then p\<lparr>mp := None, cache := False\<rparr>
      else p\<lparr>mp := Some [], cache := True,
             pool_ptrs := map_option (\<lambda>c. map c [0..<min_f p]) (kmalloc_res r),
             table_capacity := min_f p\<rparr>)"

function init_loop :: "(nat \<Rightarrow> init_res) \<Rightarrow> cnss_pool list \<Rightarrow> nat \<Rightarrow> cnss_pool list" where
  "init_loop env ps i =
     (if i < length ps then init_loop env (ps[i := init_tier (env i) (ps ! i)]) (Suc i)
      else ps)"
  by pat_completeness auto
termination
  by (relation "measure (\<lambda>(env, ps, i). length ps - i)") auto

definition cnss_pool_init :: "(nat \<Rightarrow> init_res) \<Rightarrow> prealloc \<Rightarrow> fault + prealloc" where
  "cnss_pool_init env s =
     (case s of None \<Rightarrow> Inl NullDeref | Some ps \<Rightarrow> Inr (Some (init_loop env ps 0)))"

text \<open>
  \<^verbatim>\<open>cnss_assign_prealloc_pool\<close>.  The three tier arrays are static and mutable, and
  \<^verbatim>\<open>cnss_pools\<close> is bound to one of them as it is at the time of the call: \<open>arrays\<close>
  holds their contents then, which are the initialisers above at the first call and
  whatever initialisation, use and teardown have left in them at a later one.  The
  device identifiers are macros of a header that is not part of this module; the two
  that select an array of their own are parameters.
\<close>

record static_arrays =
  arr_default :: "cnss_pool list"
  arr_adrastea :: "cnss_pool list"
  arr_wcn6750 :: "cnss_pool list"

text \<open>The three arrays as the module is loaded, with the initialisers above.\<close>

definition arrays_at_load :: static_arrays where
  "arrays_at_load =
     \<lparr>arr_default = cnss_pools_default, arr_adrastea = cnss_pools_adrastea,
      arr_wcn6750 = cnss_pools_wcn6750\<rparr>"

definition cnss_assign_prealloc_pool :: "nat \<Rightarrow> nat \<Rightarrow> static_arrays \<Rightarrow> nat \<Rightarrow> prealloc" where
  "cnss_assign_prealloc_pool ADRASTEA_DEVICE_ID WCN6750_DEVICE_ID arrays device_id =
     (if device_id = ADRASTEA_DEVICE_ID then Some (arr_adrastea arrays)
      else if device_id = WCN6750_DEVICE_ID then Some (arr_wcn6750 arrays)
      else Some (arr_default arrays))"

definition cnss_initialize_prealloc_pool ::
    "nat \<Rightarrow> nat \<Rightarrow> static_arrays \<Rightarrow> (nat \<Rightarrow> init_res) \<Rightarrow> nat \<Rightarrow> fault + prealloc" where
  "cnss_initialize_prealloc_pool ADRASTEA_DEVICE_ID WCN6750_DEVICE_ID arrays env device_id =
     cnss_pool_init env
       (cnss_assign_prealloc_pool ADRASTEA_DEVICE_ID WCN6750_DEVICE_ID arrays device_id)"

section \<open>Notions used to state the properties\<close>

text \<open>
  A tier that the loop of \<^verbatim>\<open>wcnss_prealloc_get\<close> takes for a request of \<open>sz\<close> bytes: its
  block size suffices and its backing allocator is present.
\<close>

definition eligible :: "nat \<Rightarrow> cnss_pool \<Rightarrow> bool" where
  "eligible sz p = (sz \<le> size_f p \<and> mp p \<noteq> None)"

text \<open>The tier after one \<^verbatim>\<open>mempool_alloc\<close> on its backing allocator that returned \<open>r\<close>.\<close>

definition asked :: "addr \<Rightarrow> cnss_pool \<Rightarrow> cnss_pool" where
  "asked r p = p\<lparr>mp := map_option (\<lambda>h. mempool_alloc h r) (mp p)\<rparr>"

text \<open>
  The tiers after the loop of acquire has gone through the tiers before \<open>j\<close> without
  getting a block: every tier before \<open>j\<close> that it takes has had one request that
  returned NULL, and nothing else has changed.
\<close>

definition after_failures :: "nat \<Rightarrow> nat \<Rightarrow> cnss_pool list \<Rightarrow> cnss_pool list" where
  "after_failures sz j ps =
     map (\<lambda>n. if n < j \<and> eligible sz (ps ! n) then asked 0 (ps ! n) else ps ! n) [0..<length ps]"

text \<open>
  The tier at which the loop of acquire ends, if there is one: the first tier it takes
  whose table pointer is NULL or whose allocator gives a block.
\<close>

definition stop_tier :: "(nat \<Rightarrow> addr) \<Rightarrow> nat \<Rightarrow> cnss_pool list \<Rightarrow> nat option" where
  "stop_tier alloc sz ps =
     find (\<lambda>n. eligible sz (ps ! n) \<and> (pool_ptrs (ps ! n) = None \<or> alloc n \<noteq> 0)) [0..<length ps]"

text \<open>The slots of a tier's tracking table: the first \<open>table_capacity\<close> slots of its block.\<close>

definition slots :: "cnss_pool \<Rightarrow> addr list" where
  "slots p = (case pool_ptrs p of None \<Rightarrow> [] | Some t \<Rightarrow> take (table_capacity p) t)"

definition recorded :: "addr \<Rightarrow> cnss_pool \<Rightarrow> bool" where
  "recorded a p = (a \<in> set (slots p))"

text \<open>The table of a tier is present and its block has exactly \<open>table_capacity\<close> slots.\<close>

definition table_present :: "cnss_pool \<Rightarrow> bool" where
  "table_present p =
     (case pool_ptrs p of None \<Rightarrow> False | Some t \<Rightarrow> length t = table_capacity p)"

text \<open>
  The loop of release passes a tier for the address \<open>a\<close>: the tier has no allocator, or
  its table is scanned without a match.
\<close>

definition passes :: "addr \<Rightarrow> cnss_pool \<Rightarrow> bool" where
  "passes a p = (mp p = None \<or> (table_present p \<and> a \<notin> set (slots p)))"

text \<open>
  What the audit is to print for a tier, after the specification: every slot of the
  tier's table that is not empty, with the tier's name and the index of the slot, in the
  order of the slots.
\<close>

definition leaks_of :: "cnss_pool \<Rightarrow> leak_report list" where
  "leaks_of p =
     map (\<lambda>k. (slots p ! k, name p, k)) (filter (\<lambda>k. slots p ! k \<noteq> 0) [0..<table_capacity p])"

text \<open>
  A table that is present has at least \<open>table_capacity\<close> slots; and the audit's reads of
  a tier stay within a table that is there: the table is present and large enough, or it
  is absent and the capacity is 0.
\<close>

definition in_bounds :: "cnss_pool \<Rightarrow> bool" where
  "in_bounds p = (case pool_ptrs p of None \<Rightarrow> True | Some t \<Rightarrow> table_capacity p \<le> length t)"

definition auditable :: "cnss_pool \<Rightarrow> bool" where
  "auditable p =
     (case pool_ptrs p of None \<Rightarrow> table_capacity p = 0 | Some t \<Rightarrow> table_capacity p \<le> length t)"

text \<open>
  The blocks a mempool has handed out and not been given back, from its requests.
\<close>

fun on_loan :: "mempool \<Rightarrow> addr list" where
  "on_loan [] = []"
| "on_loan (MpAlloc a # h) = (if a = 0 then on_loan h else a # on_loan h)"
| "on_loan (MpFree a # h) = remove1 a (on_loan h)"

definition loaned :: "cnss_pool \<Rightarrow> addr list" where
  "loaned p = (case mp p of None \<Rightarrow> [] | Some h \<Rightarrow> on_loan h)"

section \<open>States used as examples\<close>

text \<open>A tier in service with the table \<open>t\<close>.\<close>

definition ready_tier :: "nat \<Rightarrow> string \<Rightarrow> addr list \<Rightarrow> cnss_pool" where
  "ready_tier sz nm t =
     \<lparr>size_f = sz, min_f = 2, name = nm, mp = Some [], cache = True,
      pool_ptrs = Some t, table_capacity = length t\<rparr>"

text \<open>
  Two tiers in service with empty tables of two slots, and answers of the backing
  allocators: tier 0 has no block while the others give the block at 4096; no tier has
  a block; every tier gives the block at \<open>a\<close>.
\<close>

definition two_tiers :: "cnss_pool list" where
  "two_tiers = [ready_tier 8192 ''cnss-pool-8k'' [0, 0], ready_tier 16384 ''cnss-pool-16k'' [0, 0]]"

definition first_fails :: "nat \<Rightarrow> addr" where
  "first_fails n = (if n = 0 then 0 else 4096)"

definition none_gives :: "nat \<Rightarrow> addr" where
  "none_gives n = 0"

definition gives :: "addr \<Rightarrow> nat \<Rightarrow> addr" where
  "gives a n = a"

text \<open>
  A run in which the table of one tier is lost.  In \<open>small_tier_full\<close> both slots of the
  8k tier are taken and the 16k tier holds the block at 5; the third request of 8192
  bytes finds the 8k table full and its growth fails, which leaves \<open>small_tier_lost\<close>.
  \<open>large_tier_full\<close> and \<open>large_tier_lost\<close> are the same with the two tiers in each
  other's role, for a request of 10000 bytes.
\<close>

definition small_tier_full :: "cnss_pool list" where
  "small_tier_full =
     [ready_tier 8192 ''cnss-pool-8k'' [7, 9], ready_tier 16384 ''cnss-pool-16k'' [5, 0]]"

definition small_tier_lost :: "cnss_pool list" where
  "small_tier_lost =
     [(ready_tier 8192 ''cnss-pool-8k'' [7, 9])\<lparr>mp := Some [MpFree 11, MpAlloc 11], pool_ptrs := None\<rparr>,
      ready_tier 16384 ''cnss-pool-16k'' [5, 0]]"

definition large_tier_full :: "cnss_pool list" where
  "large_tier_full =
     [ready_tier 8192 ''cnss-pool-8k'' [5, 0], ready_tier 16384 ''cnss-pool-16k'' [7, 9]]"

definition large_tier_lost :: "cnss_pool list" where
  "large_tier_lost =
     [ready_tier 8192 ''cnss-pool-8k'' [5, 0],
      (ready_tier 16384 ''cnss-pool-16k'' [7, 9])\<lparr>mp := Some [MpFree 11, MpAlloc 11], pool_ptrs := None\<rparr>]"

text \<open>
  The profile of the scenario with two tiers, 8k and 16k, of two reserved blocks each,
  and a kernel that creates every cache and every mempool and returns cleared memory
  for every table.
\<close>

definition profileA :: "cnss_pool list" where
  "profileA = [mk_pool (8 * 1024) 2 ''cnss-pool-8k'', mk_pool (16 * 1024) 2 ''cnss-pool-16k'']"

definition kernel_all_ok :: "nat \<Rightarrow> init_res" where
  "kernel_all_ok i = \<lparr>cache_ok = True, mempool_ok = True, kmalloc_res = Some (\<lambda>k. 0)\<rparr>"

text \<open>A kernel as before except that it has no memory for the table of tier 1.\<close>

definition kernel_no_table :: "nat \<Rightarrow> init_res" where
  "kernel_no_table i =
     \<lparr>cache_ok = True, mempool_ok = True,
      kmalloc_res = (if i = 1 then None else Some (\<lambda>k. 0))\<rparr>"

text \<open>
  Three tiers of which the middle one, 16k, has a full table, and the same with the
  table pointer of the middle tier NULL.
\<close>

definition mid_tier_full :: "cnss_pool list" where
  "mid_tier_full =
     [ready_tier 8192 ''cnss-pool-8k'' [0, 0], ready_tier 16384 ''cnss-pool-16k'' [7, 9],
      ready_tier 32768 ''cnss-pool-32k'' [0, 0]]"

definition mid_tier_lost :: "cnss_pool list" where
  "mid_tier_lost =
     [ready_tier 8192 ''cnss-pool-8k'' [0, 0],
      (ready_tier 16384 ''cnss-pool-16k'' [7, 9])\<lparr>pool_ptrs := None\<rparr>,
      ready_tier 32768 ''cnss-pool-32k'' [0, 0]]"

text \<open>
  A kernel that creates every cache and every mempool and whose \<^verbatim>\<open>kmalloc\<close> returns, for
  the table of tier 0, memory that has been used before: its first word is 4096.  And
  the tiers that the initialisation of \<open>profileA\<close> makes with that kernel.
\<close>

definition kernel_stale :: "nat \<Rightarrow> init_res" where
  "kernel_stale i =
     \<lparr>cache_ok = True, mempool_ok = True,
      kmalloc_res = Some (\<lambda>k. if i = 0 \<and> k = 0 then 4096 else 0)\<rparr>"

definition stale_tiers :: "cnss_pool list" where
  "stale_tiers =
     [ready_tier 8192 ''cnss-pool-8k'' [4096, 0], ready_tier 16384 ''cnss-pool-16k'' [0, 0]]"

section \<open>Lemmas on the slot routines\<close>

declare scan_slots.simps [simp del] get_loop.simps [simp del] put_loop.simps [simp del]
  check_slots.simps [simp del] check_pools.simps [simp del] init_loop.simps [simp del]

lemma scan_slots_None:
  "cap \<le> length t \<Longrightarrow> \<forall>j. k \<le> j \<and> j < cap \<longrightarrow> t ! j \<noteq> v \<Longrightarrow> scan_slots (Some t) cap v k = Inr None"
proof (induction "Some t" cap v k rule: scan_slots.induct)
  case (1 cap v k)
  show ?case
  proof (cases "k < cap")
    case True
    with 1 show ?thesis
      by (subst scan_slots.simps) (simp add: read_slot_def)
  next
    case False
    then show ?thesis by (subst scan_slots.simps) simp
  qed
qed

lemma scan_slots_Some:
  "scan_slots tbl cap v k = Inr (Some j) \<Longrightarrow>
     \<exists>t. tbl = Some t \<and> k \<le> j \<and> j < cap \<and> j < length t \<and> t ! j = v \<and> (\<forall>j'. k \<le> j' \<and> j' < j \<longrightarrow> t ! j' \<noteq> v)"
proof (induction tbl cap v k rule: scan_slots.induct)
  case (1 tbl cap v k)
  show ?case
  proof (cases "k < cap")
    case False
    with "1.prems" show ?thesis by (subst (asm) scan_slots.simps) simp
  next
    case True
    from "1.prems" True obtain t where t: "tbl = Some t" "k < length t"
      by (subst (asm) scan_slots.simps) (auto simp: read_slot_def split: option.splits if_splits)
    show ?thesis
    proof (cases "t ! k = v")
      case True
      with "1.prems" \<open>k < cap\<close> t show ?thesis
        by (subst (asm) scan_slots.simps) (auto simp: read_slot_def)
    next
      case False
      with "1.prems" \<open>k < cap\<close> t have "scan_slots tbl cap v (Suc k) = Inr (Some j)"
        by (subst (asm) scan_slots.simps) (auto simp: read_slot_def)
      with "1.IH"[OF \<open>k < cap\<close>, of "t ! k"] t False
      obtain t' where "tbl = Some t'" "Suc k \<le> j" "j < cap" "j < length t'" "t' ! j = v"
        "\<forall>j'. Suc k \<le> j' \<and> j' < j \<longrightarrow> t' ! j' \<noteq> v"
        by (auto simp: read_slot_def)
      with t False show ?thesis
        by (auto simp: le_Suc_eq less_Suc_eq_le) (metis Suc_leI le_neq_implies_less)
    qed
  qed
qed

lemma scan_slots_find:
  "cap \<le> length t \<Longrightarrow> k \<le> j \<Longrightarrow> j < cap \<Longrightarrow> t ! j = v \<Longrightarrow> \<forall>j'. k \<le> j' \<and> j' < j \<longrightarrow> t ! j' \<noteq> v \<Longrightarrow>
   scan_slots (Some t) cap v k = Inr (Some j)"
proof (induction "Some t" cap v k rule: scan_slots.induct)
  case (1 cap v k)
  show ?case
  proof (cases "k = j")
    case True
    with 1 show ?thesis by (subst scan_slots.simps) (simp add: read_slot_def)
  next
    case False
    with 1 have "k < j" "t ! k \<noteq> v" by auto
    with 1 show ?thesis
      by (subst scan_slots.simps) (simp add: read_slot_def)
  qed
qed


lemma scan_slots_absent:
  "v \<notin> set (take cap t) \<Longrightarrow> cap \<le> length t \<Longrightarrow> scan_slots (Some t) cap v 0 = Inr None"
  by (rule scan_slots_None) (auto simp: in_set_conv_nth)

lemma first_occurrence:
  "v \<in> set xs \<Longrightarrow> \<exists>j<length xs. xs ! j = v \<and> (\<forall>j'<j. xs ! j' \<noteq> v)"
proof (induction xs)
  case Nil
  then show ?case by simp
next
  case (Cons x xs)
  show ?case
  proof (cases "x = v")
    case True
    then show ?thesis by (intro exI[of _ 0]) simp
  next
    case False
    with Cons obtain j where j: "j < length xs" "xs ! j = v" "\<forall>j'<j. xs ! j' \<noteq> v" by auto
    show ?thesis
    proof (intro exI[of _ "Suc j"] conjI allI impI)
      fix j' assume "j' < Suc j"
      with j False show "(x # xs) ! j' \<noteq> v" by (cases j') auto
    qed (use j in auto)
  qed
qed

lemma scan_slots_present:
  assumes "v \<in> set (take cap t)" "cap \<le> length t"
  shows "\<exists>j<cap. t ! j = v \<and> (\<forall>j'<j. t ! j' \<noteq> v) \<and> scan_slots (Some t) cap v 0 = Inr (Some j)"
proof -
  from first_occurrence[OF assms(1)] assms(2)
  obtain j where j: "j < cap" "t ! j = v" "\<forall>j'<j. t ! j' \<noteq> v"
    by (auto simp: min_def split: if_splits)
  with assms(2) have "scan_slots (Some t) cap v 0 = Inr (Some j)"
    by (intro scan_slots_find) auto
  with j show ?thesis by blast
qed

lemma find_slot_full:
  assumes "pool_ptrs p = Some t" "length t = table_capacity p" "0 \<notin> set t"
  shows "wcnss_find_pool_table_slot krealloc_ok p mem =
     (if krealloc_ok
      then Inr (0, p\<lparr>pool_ptrs := Some (t @ [mem]), table_capacity := table_capacity p + 1\<rparr>)
      else Inr (- EPERM, p\<lparr>pool_ptrs := None\<rparr>))"
proof -
  from assms have "scan_slots (pool_ptrs p) (table_capacity p) 0 0 = Inr None"
    by (simp add: scan_slots_absent)
  with assms show ?thesis
    by (simp add: wcnss_find_pool_table_slot_def)
qed

lemma find_slot_full_slots:
  assumes "auditable p" "0 \<notin> set (slots p)"
  shows "wcnss_find_pool_table_slot krealloc_ok p mem =
     (if krealloc_ok
      then Inr (0, p\<lparr>pool_ptrs := Some (slots p @ [mem]), table_capacity := table_capacity p + 1\<rparr>)
      else Inr (- EPERM, p\<lparr>pool_ptrs := None\<rparr>))"
proof (cases "pool_ptrs p")
  case None
  with assms(1) have "table_capacity p = 0" by (simp add: auditable_def)
  with None show ?thesis
    by (simp add: wcnss_find_pool_table_slot_def scan_slots.simps[of _ 0] slots_def)
next
  case (Some t)
  with assms have "table_capacity p \<le> length t" "0 \<notin> set (take (table_capacity p) t)"
    by (simp_all add: auditable_def slots_def)
  then have "scan_slots (Some t) (table_capacity p) 0 0 = Inr None"
    by (simp add: scan_slots_absent)
  with Some show ?thesis
    by (simp add: wcnss_find_pool_table_slot_def slots_def)
qed

lemma find_slot_empty:
  assumes "pool_ptrs p = Some t" "length t = table_capacity p" "0 \<in> set t"
  shows "\<exists>j<length t. t ! j = 0 \<and> (\<forall>j'<j. t ! j' \<noteq> 0) \<and>
     wcnss_find_pool_table_slot krealloc_ok p mem = Inr (0, p\<lparr>pool_ptrs := Some (t[j := mem])\<rparr>)"
proof -
  from assms scan_slots_present[of 0 "table_capacity p" t]
  obtain j where "j < length t" "t ! j = 0" "\<forall>j'<j. t ! j' \<noteq> 0"
    "scan_slots (Some t) (table_capacity p) 0 0 = Inr (Some j)" by auto
  with assms show ?thesis
    by (intro exI[of _ j]) (simp add: wcnss_find_pool_table_slot_def)
qed

text \<open>What any completed insert leaves.\<close>

lemma find_slot_result:
  assumes "wcnss_find_pool_table_slot krealloc_ok p mem = Inr (ret, p')"
  shows "mp p' = mp p \<and> size_f p' = size_f p \<and> name p' = name p \<and>
         (ret < 0 \<longrightarrow> pool_ptrs p' = None \<and> table_capacity p' = table_capacity p) \<and>
         (\<not> ret < 0 \<longrightarrow> ret = 0 \<and> mem \<in> set (slots p') \<and> set (slots p') \<subseteq> insert mem (set (slots p)))"
proof (cases "scan_slots (pool_ptrs p) (table_capacity p) 0 0")
  case (Inl f)
  with assms show ?thesis by (simp add: wcnss_find_pool_table_slot_def)
next
  case (Inr r)
  show ?thesis
  proof (cases r)
    case None
    with Inr assms show ?thesis
      by (auto simp: wcnss_find_pool_table_slot_def slots_def EPERM_def split: if_splits option.splits)
  next
    case (Some j)
    with Inr scan_slots_Some[of "pool_ptrs p" "table_capacity p" 0 0 j]
    obtain t where t: "pool_ptrs p = Some t" "j < table_capacity p" "j < length t" by auto
    have "mem \<in> set (take (table_capacity p) (t[j := mem]))"
      using t by (auto simp: in_set_conv_nth intro!: exI[of _ j])
    moreover have "set (take (table_capacity p) (t[j := mem])) \<subseteq> insert mem (set (take (table_capacity p) t))"
      by (metis set_update_subset_insert take_update_swap)
    ultimately show ?thesis using Inr Some assms t
      by (auto simp: wcnss_find_pool_table_slot_def slots_def)
  qed
qed

lemma free_slot_absent:
  assumes "pool_ptrs p = Some t" "table_capacity p \<le> length t" "a \<notin> set (slots p)"
  shows "wcnss_free_pool_table_slot p a = Inr (- EPERM, p)"
  using assms by (simp add: wcnss_free_pool_table_slot_def slots_def scan_slots_absent)

lemma free_slot_present:
  assumes "pool_ptrs p = Some t" "table_capacity p \<le> length t" "a \<in> set (slots p)"
  shows "\<exists>j<table_capacity p. t ! j = a \<and> (\<forall>j'<j. t ! j' \<noteq> a) \<and>
     wcnss_free_pool_table_slot p a = Inr (int j, p\<lparr>pool_ptrs := Some (t[j := 0])\<rparr>)"
proof -
  from assms scan_slots_present[of a "table_capacity p" t]
  obtain j where "j < table_capacity p" "t ! j = a" "\<forall>j'<j. t ! j' \<noteq> a"
    "scan_slots (Some t) (table_capacity p) a 0 = Inr (Some j)" by (auto simp: slots_def)
  with assms show ?thesis
    by (intro exI[of _ j]) (simp add: wcnss_free_pool_table_slot_def)
qed

lemma count_list_update_first:
  "j < length xs \<Longrightarrow> xs ! j = a \<Longrightarrow> a \<noteq> b \<Longrightarrow> count_list (xs[j := b]) a = count_list xs a - 1"
proof (induction xs arbitrary: j)
  case Nil
  then show ?case by simp
next
  case (Cons x xs)
  show ?case
  proof (cases j)
    case 0
    with Cons.prems show ?thesis by simp
  next
    case (Suc k)
    with Cons.prems have k: "k < length xs" "xs ! k = a" by auto
    then have "a \<in> set xs" by (auto simp: in_set_conv_nth)
    then have "count_list xs a > 0" using count_list_0_iff[of xs a] by (cases "count_list xs a") auto
    with Cons.IH[OF k Cons.prems(3)] Suc show ?thesis by simp
  qed
qed


section \<open>Lemmas on the tier loop of acquire\<close>

lemma asked_simps [simp]:
  "size_f (asked r p) = size_f p" "pool_ptrs (asked r p) = pool_ptrs p"
  "table_capacity (asked r p) = table_capacity p" "name (asked r p) = name p"
  "min_f (asked r p) = min_f p"
  "mp (asked r p) = map_option (\<lambda>h. mempool_alloc h r) (mp p)"
  "eligible sz (asked r p) = eligible sz p" "slots (asked r p) = slots p"
  by (simp_all add: asked_def eligible_def slots_def split: option.splits)

lemma nth_update_asked:
  assumes "n < length ps"
  shows "size_f (ps[k := asked r (ps ! k)] ! n) = size_f (ps ! n)"
    "pool_ptrs (ps[k := asked r (ps ! k)] ! n) = pool_ptrs (ps ! n)"
    "table_capacity (ps[k := asked r (ps ! k)] ! n) = table_capacity (ps ! n)"
    "eligible sz (ps[k := asked r (ps ! k)] ! n) = eligible sz (ps ! n)"
    "(mp (ps[k := asked r (ps ! k)] ! n) = None) = (mp (ps ! n) = None)"
  using assms by (cases "n = k"; simp)+

lemma get_loop_end:
  "\<not> i < length ps \<Longrightarrow> get_loop alloc ok sz ps i = Inr (ps, i, 0, 0)"
  by (subst get_loop.simps) simp

lemma get_loop_skip:
  "i < length ps \<Longrightarrow> \<not> eligible sz (ps ! i) \<Longrightarrow>
   get_loop alloc ok sz ps i = get_loop alloc ok sz ps (Suc i)"
  by (subst get_loop.simps) (auto simp: eligible_def)

lemma get_loop_no_table:
  "i < length ps \<Longrightarrow> eligible sz (ps ! i) \<Longrightarrow> pool_ptrs (ps ! i) = None \<Longrightarrow>
   get_loop alloc ok sz ps i = Inr (ps, i, 0, 0)"
  by (subst get_loop.simps) (auto simp: eligible_def)

lemma get_loop_fail:
  "i < length ps \<Longrightarrow> eligible sz (ps ! i) \<Longrightarrow> pool_ptrs (ps ! i) \<noteq> None \<Longrightarrow> alloc i = 0 \<Longrightarrow>
   get_loop alloc ok sz ps i = get_loop alloc ok sz (ps[i := asked 0 (ps ! i)]) (Suc i)"
  by (subst get_loop.simps) (auto simp: eligible_def asked_def)

lemma get_loop_hit:
  "i < length ps \<Longrightarrow> eligible sz (ps ! i) \<Longrightarrow> pool_ptrs (ps ! i) \<noteq> None \<Longrightarrow> alloc i \<noteq> 0 \<Longrightarrow>
   get_loop alloc ok sz ps i =
     (case wcnss_find_pool_table_slot ok (asked (alloc i) (ps ! i)) (alloc i) of
        Inl f \<Rightarrow> Inl f
      | Inr (ret, p2) \<Rightarrow> Inr (ps[i := p2], i, alloc i, ret))"
  by (subst get_loop.simps) (auto simp: eligible_def asked_def Let_def)

lemma find_slot_asked:
  "wcnss_find_pool_table_slot ok (asked r p) mem =
     (case wcnss_find_pool_table_slot ok p mem of
        Inl f \<Rightarrow> Inl f
      | Inr (ret, p') \<Rightarrow> Inr (ret, asked r p'))"
  by (simp add: wcnss_find_pool_table_slot_def asked_def split: sum.splits option.splits)

lemma get_loop_reach:
  assumes "k \<le> j" "j \<le> length ps"
    and "\<forall>n. k \<le> n \<and> n < j \<and> eligible sz (ps ! n) \<longrightarrow> alloc n = 0 \<and> pool_ptrs (ps ! n) \<noteq> None"
  shows "\<exists>ps'. get_loop alloc ok sz ps k = get_loop alloc ok sz ps' j \<and> length ps' = length ps \<and>
           (\<forall>n<length ps. ps' ! n = (if k \<le> n \<and> n < j \<and> eligible sz (ps ! n) then asked 0 (ps ! n) else ps ! n))"
  using assms
proof (induction j rule: dec_induct)
  case base
  show ?case by (intro exI[of _ ps]) auto
next
  case (step j)
  then obtain ps' where ps': "get_loop alloc ok sz ps k = get_loop alloc ok sz ps' j"
    "length ps' = length ps"
    "\<forall>n<length ps. ps' ! n = (if k \<le> n \<and> n < j \<and> eligible sz (ps ! n) then asked 0 (ps ! n) else ps ! n)"
    by auto
  from step.prems ps' have j: "j < length ps'" "ps' ! j = ps ! j" by auto
  show ?case
  proof (cases "eligible sz (ps ! j)")
    case False
    with j have "get_loop alloc ok sz ps' j = get_loop alloc ok sz ps' (Suc j)"
      by (simp add: get_loop_skip)
    with ps' False show ?thesis
      by (intro exI[of _ ps']) (auto simp: less_Suc_eq)
  next
    case True
    with step.prems step.hyps have "alloc j = 0" "pool_ptrs (ps ! j) \<noteq> None" by auto
    with j True have "get_loop alloc ok sz ps' j = get_loop alloc ok sz (ps'[j := asked 0 (ps ! j)]) (Suc j)"
      using get_loop_fail[of j ps' sz alloc ok] by simp
    with ps' True j step.hyps show ?thesis
      by (intro exI[of _ "ps'[j := asked 0 (ps ! j)]"]) (auto simp: less_Suc_eq nth_list_update)
  qed
qed

lemma get_loop_outcome:
  "get_loop alloc ok sz ps k = Inr (ps', i, mem, ret) \<Longrightarrow>
     length ps' = length ps \<and>
     (\<forall>n<length ps. size_f (ps' ! n) = size_f (ps ! n) \<and> (mp (ps' ! n) = None) = (mp (ps ! n) = None)) \<and>
     (\<forall>n<length ps. n \<noteq> i \<or> mem = 0 \<longrightarrow>
         pool_ptrs (ps' ! n) = pool_ptrs (ps ! n) \<and> table_capacity (ps' ! n) = table_capacity (ps ! n)) \<and>
     (mem = 0 \<longrightarrow> ret = 0) \<and>
     (mem \<noteq> 0 \<longrightarrow> k \<le> i \<and> i < length ps \<and> mem = alloc i \<and> eligible sz (ps ! i) \<and>
         pool_ptrs (ps ! i) \<noteq> None \<and>
         wcnss_find_pool_table_slot ok (asked mem (ps ! i)) mem = Inr (ret, ps' ! i))"
proof (induction alloc ok sz ps k rule: get_loop.induct)
  case (1 alloc ok sz ps k)
  show ?case
  proof (cases "k < length ps")
    case False
    with "1.prems" show ?thesis by (simp add: get_loop_end)
  next
    case lt: True
    show ?thesis
    proof (cases "eligible sz (ps ! k)")
      case False
      with lt "1.prems" have "get_loop alloc ok sz ps (Suc k) = Inr (ps', i, mem, ret)"
        by (simp add: get_loop_skip)
      with "1.IH"(2)[OF lt] False show ?thesis by (auto simp: eligible_def)
    next
      case el: True
      show ?thesis
      proof (cases "pool_ptrs (ps ! k) = None")
        case True
        with lt el "1.prems" show ?thesis by (simp add: get_loop_no_table)
      next
        case tbl: False
        show ?thesis
        proof (cases "alloc k = 0")
          case True
          with lt el tbl "1.prems"
          have "get_loop alloc ok sz (ps[k := asked 0 (ps ! k)]) (Suc k) = Inr (ps', i, mem, ret)"
            by (simp add: get_loop_fail)
          then have g: "get_loop alloc ok sz (ps[k := asked 0 (ps ! k)]) (Suc k) = Inr (ps', i, mem, ret)" .
          have eq: "(ps ! k)\<lparr>mp := map_option (\<lambda>h. mempool_alloc h (alloc k)) (mp (ps ! k))\<rparr> = asked 0 (ps ! k)"
            using True by (simp add: asked_def)
          have el': "sz \<le> size_f (ps ! k) \<and> mp (ps ! k) \<noteq> None"
            using el by (simp add: eligible_def)
          have nz: "\<not> alloc k \<noteq> 0" using True by simp
          note ih = "1.IH"(1)[OF lt el' tbl refl refl nz, unfolded eq, OF g, unfolded length_list_update]
          from ih have len: "length ps' = length ps" by simp
          from ih have sz: "\<forall>n<length ps. size_f (ps' ! n) = size_f (ps ! n) \<and>
              (mp (ps' ! n) = None) = (mp (ps ! n) = None)"
            by (simp add: nth_update_asked)
          from ih have tb: "\<forall>n<length ps. n \<noteq> i \<or> mem = 0 \<longrightarrow>
               pool_ptrs (ps' ! n) = pool_ptrs (ps ! n) \<and> table_capacity (ps' ! n) = table_capacity (ps ! n)"
            by (simp add: nth_update_asked)
          from ih have r0: "mem = 0 \<longrightarrow> ret = 0" by simp
          have hit: "mem \<noteq> 0 \<longrightarrow> k \<le> i \<and> i < length ps \<and> mem = alloc i \<and> eligible sz (ps ! i) \<and>
               pool_ptrs (ps ! i) \<noteq> None \<and>
               wcnss_find_pool_table_slot ok (asked mem (ps ! i)) mem = Inr (ret, ps' ! i)"
          proof
            assume "mem \<noteq> 0"
            with ih have *: "Suc k \<le> i" "i < length ps" "mem = alloc i"
              "eligible sz (ps[k := asked 0 (ps ! k)] ! i)"
              "pool_ptrs (ps[k := asked 0 (ps ! k)] ! i) \<noteq> None"
              "wcnss_find_pool_table_slot ok (asked mem (ps[k := asked 0 (ps ! k)] ! i)) mem = Inr (ret, ps' ! i)"
              by blast+
            from *(1) have "ps[k := asked 0 (ps ! k)] ! i = ps ! i" by simp
            with * show "k \<le> i \<and> i < length ps \<and> mem = alloc i \<and> eligible sz (ps ! i) \<and>
               pool_ptrs (ps ! i) \<noteq> None \<and>
               wcnss_find_pool_table_slot ok (asked mem (ps ! i)) mem = Inr (ret, ps' ! i)"
              by simp
          qed
          from len sz tb r0 hit show ?thesis by blast
        next
          case False
          with lt el tbl "1.prems" obtain p2 where
            p2: "wcnss_find_pool_table_slot ok (asked (alloc k) (ps ! k)) (alloc k) = Inr (ret, p2)"
            and res: "ps' = ps[k := p2]" "i = k" "mem = alloc k"
            by (auto simp: get_loop_hit split: sum.splits)
          from find_slot_result[OF p2] have "size_f p2 = size_f (ps ! k)"
            "(mp p2 = None) = (mp (ps ! k) = None)" by simp_all
          with p2 res lt el tbl False show ?thesis
            by (auto simp: nth_list_update)
        qed
      qed
    qed
  qed
qed


lemma get_unfold:
  assumes "ps \<noteq> []" "size_f (hd ps) \<le> sz"
  shows "wcnss_prealloc_get alloc ok (Some ps) sz =
     (case get_loop alloc ok sz ps 0 of
        Inl f \<Rightarrow> Inl f
      | Inr (ps1, i, mem, ret) \<Rightarrow>
          if ret < 0 then
            Inr (0, Some (ps1[i := (ps1 ! i)\<lparr>mp := map_option (mempool_free mem) (mp (ps1 ! i))\<rparr>]))
          else Inr (mem, Some ps1))"
  using assms by (cases ps) (simp_all add: wcnss_prealloc_get_def cnss_pool_alloc_threshold_def)

text \<open>The loop arrives at tier \<open>j\<close> and gets a block there.\<close>

lemma get_loop_hit_at:
  assumes "j < length ps" "eligible sz (ps ! j)" "pool_ptrs (ps ! j) \<noteq> None"
    and "\<forall>n<j. eligible sz (ps ! n) \<longrightarrow> alloc n = 0 \<and> pool_ptrs (ps ! n) \<noteq> None"
    and "alloc j \<noteq> 0"
    and "wcnss_find_pool_table_slot ok (ps ! j) (alloc j) = Inr (ret, p2)"
  shows "\<exists>ps'. get_loop alloc ok sz ps 0 = Inr (ps'[j := asked (alloc j) p2], j, alloc j, ret) \<and>
           length ps' = length ps \<and>
           (\<forall>n<length ps. ps' ! n = (if n < j \<and> eligible sz (ps ! n) then asked 0 (ps ! n) else ps ! n))"
proof -
  from assms(1,4) get_loop_reach[of 0 j ps sz alloc ok]
  obtain ps' where ps': "get_loop alloc ok sz ps 0 = get_loop alloc ok sz ps' j"
    "length ps' = length ps"
    "\<forall>n<length ps. ps' ! n = (if 0 \<le> n \<and> n < j \<and> eligible sz (ps ! n) then asked 0 (ps ! n) else ps ! n)"
    by auto
  from ps' assms(1) have j: "j < length ps'" "ps' ! j = ps ! j" by auto
  with assms have "get_loop alloc ok sz ps' j = Inr (ps'[j := asked (alloc j) p2], j, alloc j, ret)"
    by (simp add: get_loop_hit find_slot_asked)
  with ps' show ?thesis by auto
qed

text \<open>Every tier that the loop takes fails to give a block.\<close>

lemma get_loop_all_fail:
  assumes "\<forall>n<length ps. eligible sz (ps ! n) \<longrightarrow> alloc n = 0 \<and> pool_ptrs (ps ! n) \<noteq> None"
  shows "\<exists>ps'. get_loop alloc ok sz ps 0 = Inr (ps', length ps, 0, 0) \<and> length ps' = length ps \<and>
           (\<forall>n<length ps. ps' ! n = (if eligible sz (ps ! n) then asked 0 (ps ! n) else ps ! n))"
proof -
  from assms get_loop_reach[of 0 "length ps" ps sz alloc ok]
  obtain ps' where ps': "get_loop alloc ok sz ps 0 = get_loop alloc ok sz ps' (length ps)"
    "length ps' = length ps"
    "\<forall>n<length ps. ps' ! n =
        (if 0 \<le> n \<and> n < length ps \<and> eligible sz (ps ! n) then asked 0 (ps ! n) else ps ! n)"
    by auto
  then have "get_loop alloc ok sz ps 0 = Inr (ps', length ps, 0, 0)"
    by (simp add: get_loop_end)
  with ps'(2,3) show ?thesis by (intro exI[of _ ps']) simp
qed

lemma find_slot_succeeds:
  assumes "table_present p" "ok \<or> 0 \<in> set (slots p)"
  shows "\<exists>p2. wcnss_find_pool_table_slot ok p mem = Inr (0, p2) \<and> mem \<in> set (slots p2) \<and>
           mp p2 = mp p \<and> size_f p2 = size_f p"
proof -
  from assms(1) obtain t where t: "pool_ptrs p = Some t" "length t = table_capacity p"
    by (auto simp: table_present_def split: option.splits)
  then have sl: "slots p = t" by (simp add: slots_def)
  have "\<exists>r p2. wcnss_find_pool_table_slot ok p mem = Inr (r, p2) \<and> \<not> r < 0"
  proof (cases "0 \<in> set t")
    case True
    from find_slot_empty[OF t True, of ok mem] show ?thesis by auto
  next
    case False
    with assms(2) sl have ok by simp
    with find_slot_full[OF t False, of ok mem] show ?thesis by auto
  qed
  then obtain r p2 where r: "wcnss_find_pool_table_slot ok p mem = Inr (r, p2)" "\<not> r < 0" by blast
  from find_slot_result[OF r(1)] r show ?thesis by auto
qed

section \<open>The loop of acquire, from the tiers alone\<close>

lemma after_failures_simps [simp]:
  "length (after_failures sz j ps) = length ps"
  "n < length ps \<Longrightarrow> after_failures sz j ps ! n =
     (if n < j \<and> eligible sz (ps ! n) then asked 0 (ps ! n) else ps ! n)"
  by (simp_all add: after_failures_def)

lemma get_loop_to:
  assumes "j \<le> length ps"
    and "\<forall>n<j. eligible sz (ps ! n) \<longrightarrow> alloc n = 0 \<and> pool_ptrs (ps ! n) \<noteq> None"
  shows "get_loop alloc ok sz ps 0 = get_loop alloc ok sz (after_failures sz j ps) j"
proof -
  from assms get_loop_reach[of 0 j ps sz alloc ok]
  obtain ps' where ps': "get_loop alloc ok sz ps 0 = get_loop alloc ok sz ps' j"
    "length ps' = length ps"
    "\<forall>n<length ps. ps' ! n = (if 0 \<le> n \<and> n < j \<and> eligible sz (ps ! n) then asked 0 (ps ! n) else ps ! n)"
    by auto
  from ps'(2,3) have "ps' = after_failures sz j ps"
    by (intro nth_equalityI) simp_all
  with ps'(1) show ?thesis by simp
qed

lemma stop_tier_None:
  "stop_tier alloc sz ps = None \<Longrightarrow>
     \<forall>n<length ps. eligible sz (ps ! n) \<longrightarrow> alloc n = 0 \<and> pool_ptrs (ps ! n) \<noteq> None"
  by (auto simp: stop_tier_def find_None_iff)

lemma stop_tier_Some:
  "stop_tier alloc sz ps = Some j \<Longrightarrow>
     j < length ps \<and> eligible sz (ps ! j) \<and> (pool_ptrs (ps ! j) = None \<or> alloc j \<noteq> 0) \<and>
     (\<forall>n<j. eligible sz (ps ! n) \<longrightarrow> alloc n = 0 \<and> pool_ptrs (ps ! n) \<noteq> None)"
  by (auto simp: stop_tier_def find_Some_iff)

lemma stop_tier_SomeI:
  assumes "j < length ps" "eligible sz (ps ! j)" "pool_ptrs (ps ! j) = None \<or> alloc j \<noteq> 0"
    and "\<forall>n<j. eligible sz (ps ! n) \<longrightarrow> alloc n = 0 \<and> pool_ptrs (ps ! n) \<noteq> None"
  shows "stop_tier alloc sz ps = Some j"
  unfolding stop_tier_def find_Some_iff
  using assms by (intro exI[of _ j]) auto

lemma stop_tier_NoneI:
  assumes "\<forall>n<length ps. eligible sz (ps ! n) \<longrightarrow> alloc n = 0 \<and> pool_ptrs (ps ! n) \<noteq> None"
  shows "stop_tier alloc sz ps = None"
  unfolding stop_tier_def find_None_iff
  using assms by auto

text \<open>The whole loop, as a function of where it ends.\<close>

lemma get_loop_run:
  "get_loop alloc ok sz ps 0 =
     (case stop_tier alloc sz ps of
        None \<Rightarrow> Inr (after_failures sz (length ps) ps, length ps, 0, 0)
      | Some j \<Rightarrow>
          if pool_ptrs (ps ! j) = None then Inr (after_failures sz j ps, j, 0, 0)
          else
            (case wcnss_find_pool_table_slot ok (ps ! j) (alloc j) of
               Inl f \<Rightarrow> Inl f
             | Inr (ret, p2) \<Rightarrow>
                 Inr ((after_failures sz j ps)[j := asked (alloc j) p2], j, alloc j, ret)))"
proof (cases "stop_tier alloc sz ps")
  case None
  from stop_tier_None[OF None] have "get_loop alloc ok sz ps 0 =
      get_loop alloc ok sz (after_failures sz (length ps) ps) (length ps)"
    by (intro get_loop_to) simp_all
  with None show ?thesis by (simp add: get_loop_end)
next
  case (Some j)
  note st = stop_tier_Some[OF Some]
  from st have to: "get_loop alloc ok sz ps 0 = get_loop alloc ok sz (after_failures sz j ps) j"
    by (intro get_loop_to) simp_all
  from st have j: "j < length (after_failures sz j ps)" "after_failures sz j ps ! j = ps ! j"
    by simp_all
  show ?thesis
  proof (cases "pool_ptrs (ps ! j) = None")
    case True
    with st j have "get_loop alloc ok sz (after_failures sz j ps) j = Inr (after_failures sz j ps, j, 0, 0)"
      by (intro get_loop_no_table) simp_all
    with to Some True show ?thesis by simp
  next
    case False
    with st have nz: "alloc j \<noteq> 0" by simp
    from st j False nz have "get_loop alloc ok sz (after_failures sz j ps) j =
        (case wcnss_find_pool_table_slot ok (asked (alloc j) (ps ! j)) (alloc j) of
           Inl f \<Rightarrow> Inl f
         | Inr (ret, p2) \<Rightarrow> Inr ((after_failures sz j ps)[j := p2], j, alloc j, ret))"
      using get_loop_hit[of j "after_failures sz j ps" sz alloc ok] by simp
    with to Some False show ?thesis
      by (simp add: find_slot_asked split: sum.splits)
  qed
qed

text \<open>The whole of acquire, for a request at or above the threshold.\<close>

lemma get_run:
  assumes "ps \<noteq> []" "size_f (hd ps) \<le> sz"
  shows "wcnss_prealloc_get alloc ok (Some ps) sz =
     (case stop_tier alloc sz ps of
        None \<Rightarrow> Inr (0, Some (after_failures sz (length ps) ps))
      | Some j \<Rightarrow>
          if pool_ptrs (ps ! j) = None then Inr (0, Some (after_failures sz j ps))
          else
            (case wcnss_find_pool_table_slot ok (ps ! j) (alloc j) of
               Inl f \<Rightarrow> Inl f
             | Inr (ret, p2) \<Rightarrow>
                 if ret < 0 then
                   Inr (0, Some ((after_failures sz j ps)
                                   [j := (asked (alloc j) p2)
                                      \<lparr>mp := map_option (mempool_free (alloc j)) (mp (asked (alloc j) p2))\<rparr>]))
                 else Inr (alloc j, Some ((after_failures sz j ps)[j := asked (alloc j) p2]))))"
proof (cases "stop_tier alloc sz ps")
  case None
  then show ?thesis by (simp add: get_unfold[OF assms] get_loop_run)
next
  case (Some j)
  from stop_tier_Some[OF Some] have "j < length ps" by simp
  with Some show ?thesis
    by (simp add: get_unfold[OF assms] get_loop_run split: sum.splits)
qed

lemma find_slot_total:
  assumes "pool_ptrs p = Some t" "table_capacity p \<le> length t"
  shows "\<exists>ret p2. wcnss_find_pool_table_slot ok p mem = Inr (ret, p2)"
proof (cases "0 \<in> set (take (table_capacity p) t)")
  case True
  from scan_slots_present[OF True assms(2)] obtain j where
    "scan_slots (Some t) (table_capacity p) 0 0 = Inr (Some j)" by blast
  with assms(1) show ?thesis by (simp add: wcnss_find_pool_table_slot_def)
next
  case False
  from scan_slots_absent[OF False assms(2)] assms(1) show ?thesis
    by (simp add: wcnss_find_pool_table_slot_def)
qed

text \<open>Acquire completes whenever every table that is present is as large as its capacity.\<close>

lemma get_total:
  assumes "\<forall>n<length ps. in_bounds (ps ! n)" and that: "ps \<noteq> []"
  shows "\<exists>r ps'. wcnss_prealloc_get alloc ok (Some ps) sz = Inr (r, Some ps')"
proof (cases "size_f (hd ps) \<le> sz")
  case False
  with that show ?thesis
    by (cases ps) (simp_all add: wcnss_prealloc_get_def cnss_pool_alloc_threshold_def)
next
  case True
  show ?thesis
  proof (cases "stop_tier alloc sz ps")
    case None
    then show ?thesis by (simp add: get_run[OF that True])
  next
    case (Some j)
    note st = stop_tier_Some[OF Some]
    show ?thesis
    proof (cases "pool_ptrs (ps ! j)")
      case None
      with Some show ?thesis by (simp add: get_run[OF that True])
    next
      case (Some t)
      with assms st have "table_capacity (ps ! j) \<le> length t" by (auto simp: in_bounds_def)
      from find_slot_total[OF Some this, of ok "alloc j"] obtain ret p2 where
        "wcnss_find_pool_table_slot ok (ps ! j) (alloc j) = Inr (ret, p2)" by blast
      with Some \<open>stop_tier alloc sz ps = Some j\<close> show ?thesis
        by (simp add: get_run[OF that True])
    qed
  qed
qed

section \<open>Running the loops on given states\<close>

lemma scan_slots_at:
  "k < cap \<Longrightarrow> scan_slots tbl cap v k =
     (case read_slot tbl k of
        Inl f \<Rightarrow> Inl f
      | Inr x \<Rightarrow> if x = v then Inr (Some k) else scan_slots tbl cap v (Suc k))"
  by (subst scan_slots.simps) simp

lemma scan_slots_end:
  "\<not> k < cap \<Longrightarrow> scan_slots tbl cap v k = Inr None"
  by (subst scan_slots.simps) simp

lemma get_loop_at:
  "i < length ps \<Longrightarrow> get_loop alloc ok sz ps i =
     (if size_f (ps ! i) \<ge> sz \<and> mp (ps ! i) \<noteq> None then
        (if pool_ptrs (ps ! i) = None then Inr (ps, i, 0, 0)
         else
           (let mem = alloc i;
                p1 = (ps ! i)\<lparr>mp := map_option (\<lambda>h. mempool_alloc h mem) (mp (ps ! i))\<rparr>
            in if mem \<noteq> 0 then
                 (case wcnss_find_pool_table_slot ok p1 mem of
                    Inl f \<Rightarrow> Inl f
                  | Inr (ret, p2) \<Rightarrow> Inr (ps[i := p2], i, mem, ret))
               else get_loop alloc ok sz (ps[i := p1]) (Suc i)))
      else get_loop alloc ok sz ps (Suc i))"
  by (subst get_loop.simps) simp

lemma put_loop_at:
  "i < length ps \<Longrightarrow> put_loop mem ps i =
     (if mp (ps ! i) \<noteq> None then
        (if pool_ptrs (ps ! i) = None then Inr (0, ps)
         else
           (case wcnss_free_pool_table_slot (ps ! i) mem of
              Inl f \<Rightarrow> Inl f
            | Inr (ret, p1) \<Rightarrow>
                if ret \<ge> 0 then
                  Inr (1, ps[i := p1\<lparr>mp := map_option (mempool_free mem) (mp p1)\<rparr>])
                else put_loop mem (ps[i := p1]) (Suc i)))
      else put_loop mem ps (Suc i))"
  by (subst put_loop.simps) simp

lemma put_loop_end:
  "\<not> i < length ps \<Longrightarrow> put_loop mem ps i = Inr (0, ps)"
  by (subst put_loop.simps) simp

lemma check_slots_at:
  "k < count \<Longrightarrow> check_slots pool count nm k out =
     (case read_slot pool k of
        Inl f \<Rightarrow> Inl f
      | Inr x \<Rightarrow> check_slots pool count nm (Suc k) (if x \<noteq> 0 then out @ [(x, nm, k)] else out))"
  by (subst check_slots.simps) simp

lemma check_slots_end:
  "\<not> k < count \<Longrightarrow> check_slots pool count nm k out = Inr out"
  by (subst check_slots.simps) simp

lemma check_pools_at:
  "i < length ps \<Longrightarrow> check_pools ps i out =
     (case check_slots (pool_ptrs (ps ! i)) (table_capacity (ps ! i)) (name (ps ! i)) 0 out of
        Inl f \<Rightarrow> Inl f
      | Inr out1 \<Rightarrow> check_pools ps (Suc i) out1)"
  by (subst check_pools.simps) simp

lemma check_pools_end:
  "\<not> i < length ps \<Longrightarrow> check_pools ps i out = Inr out"
  by (subst check_pools.simps) simp

lemma init_loop_at:
  "i < length ps \<Longrightarrow> init_loop env ps i = init_loop env (ps[i := init_tier (env i) (ps ! i)]) (Suc i)"
  by (subst init_loop.simps) simp

lemma init_loop_end:
  "\<not> i < length ps \<Longrightarrow> init_loop env ps i = ps"
  by (subst init_loop.simps) simp

lemmas run_loops =
  scan_slots_at scan_slots_end get_loop_at get_loop_end put_loop_at put_loop_end
  check_slots_at check_slots_end check_pools_at check_pools_end init_loop_at init_loop_end
  read_slot_def wcnss_find_pool_table_slot_def wcnss_free_pool_table_slot_def
  wcnss_prealloc_get_def wcnss_prealloc_put_def wcnss_check_pool_lists_def
  cnss_pool_alloc_threshold_def cnss_pool_init_def init_tier_def
  mempool_alloc_def mempool_free_def EPERM_def

section \<open>Lemmas on the tier loop of release\<close>

lemma put_loop_step:
  assumes "i < length ps" "passes a (ps ! i)"
  shows "put_loop a ps i = put_loop a ps (Suc i)"
proof (cases "mp (ps ! i) = None")
  case True
  with assms(1) show ?thesis by (simp add: put_loop_at)
next
  case False
  with assms(2) obtain t where t: "pool_ptrs (ps ! i) = Some t" "table_capacity (ps ! i) \<le> length t"
    "a \<notin> set (slots (ps ! i))"
    by (auto simp: passes_def table_present_def split: option.splits)
  from free_slot_absent[OF t] False t(1) assms(1) show ?thesis
    by (simp add: put_loop_at EPERM_def)
qed

lemma put_loop_pass:
  assumes "k \<le> i" "i \<le> length ps" "\<forall>n. k \<le> n \<and> n < i \<longrightarrow> passes a (ps ! n)"
  shows "put_loop a ps k = put_loop a ps i"
  using assms
proof (induction i rule: dec_induct)
  case base
  show ?case by simp
next
  case (step i)
  then have "put_loop a ps k = put_loop a ps i" by auto
  also from step have "put_loop a ps i = put_loop a ps (Suc i)"
    by (intro put_loop_step) auto
  finally show ?case .
qed

lemma put_loop_break:
  "i < length ps \<Longrightarrow> mp (ps ! i) \<noteq> None \<Longrightarrow> pool_ptrs (ps ! i) = None \<Longrightarrow>
   put_loop a ps i = Inr (0, ps)"
  by (simp add: put_loop_at)

lemma put_loop_found:
  assumes "i < length ps" "mp (ps ! i) \<noteq> None" "pool_ptrs (ps ! i) = Some t"
    "table_capacity (ps ! i) \<le> length t" "a \<in> set (slots (ps ! i))"
  shows "\<exists>k<table_capacity (ps ! i). t ! k = a \<and> (\<forall>k'<k. t ! k' \<noteq> a) \<and>
     put_loop a ps i =
       Inr (1, ps[i := (ps ! i)\<lparr>pool_ptrs := Some (t[k := 0]),
                               mp := map_option (mempool_free a) (mp (ps ! i))\<rparr>])"
proof -
  from free_slot_present[OF assms(3,4,5)] obtain k where
    k: "k < table_capacity (ps ! i)" "t ! k = a" "\<forall>k'<k. t ! k' \<noteq> a"
    "wcnss_free_pool_table_slot (ps ! i) a = Inr (int k, (ps ! i)\<lparr>pool_ptrs := Some (t[k := 0])\<rparr>)"
    by auto
  with assms(1,2,3) have "put_loop a ps i =
       Inr (1, ps[i := (ps ! i)\<lparr>pool_ptrs := Some (t[k := 0]),
                               mp := map_option (mempool_free a) (mp (ps ! i))\<rparr>])"
    by (simp add: put_loop_at)
  with k show ?thesis by blast
qed

text \<open>From tier \<open>k\<close> on, every tier is passed or stops the loop: nothing is released.\<close>

lemma put_loop_not_found:
  assumes "\<forall>n<length ps. k \<le> n \<longrightarrow> passes a (ps ! n) \<or> pool_ptrs (ps ! n) = None"
  shows "put_loop a ps k = Inr (0, ps)"
  using assms
proof (induction "length ps - k" arbitrary: k)
  case 0
  then show ?case by (simp add: put_loop_end)
next
  case (Suc d)
  then have lt: "k < length ps" by simp
  from Suc.hyps(2) have d: "d = length ps - Suc k" by simp
  have rest: "\<forall>n<length ps. Suc k \<le> n \<longrightarrow> passes a (ps ! n) \<or> pool_ptrs (ps ! n) = None"
    using Suc.prems by auto
  show ?case
  proof (cases "passes a (ps ! k)")
    case True
    with lt have "put_loop a ps k = put_loop a ps (Suc k)" by (rule put_loop_step)
    with Suc.hyps(1)[OF d rest] show ?thesis by simp
  next
    case False
    with Suc.prems lt have "pool_ptrs (ps ! k) = None" "mp (ps ! k) \<noteq> None"
      by (auto simp: passes_def)
    with lt show ?thesis by (simp add: put_loop_break)
  qed
qed

lemma put_unfold:
  "a \<noteq> 0 \<Longrightarrow> wcnss_prealloc_put (Some ps) a =
     (case put_loop a ps 0 of Inl f \<Rightarrow> Inl f | Inr (r, ps1) \<Rightarrow> Inr (r, Some ps1))"
  by (simp add: wcnss_prealloc_put_def)

section \<open>What acquire and release never change\<close>

lemma free_slot_result:
  assumes "wcnss_free_pool_table_slot p a = Inr (ret, p')"
  shows "mp p' = mp p \<and> (pool_ptrs p' = None) = (pool_ptrs p = None)"
  using assms
  by (cases "pool_ptrs p")
     (auto simp: wcnss_free_pool_table_slot_def split: sum.splits option.splits)

lemma put_loop_keeps:
  "put_loop a ps k = Inr (r, ps') \<Longrightarrow>
     length ps' = length ps \<and>
     (\<forall>n<length ps. (mp (ps' ! n) = None) = (mp (ps ! n) = None) \<and>
                    (pool_ptrs (ps ! n) = None \<longrightarrow> pool_ptrs (ps' ! n) = None))"
proof (induction a ps k rule: put_loop.induct)
  case (1 a ps k)
  show ?case
  proof (cases "k < length ps")
    case False
    with "1.prems" show ?thesis by (simp add: put_loop_end)
  next
    case lt: True
    show ?thesis
    proof (cases "mp (ps ! k) = None")
      case True
      with lt "1.prems" have "put_loop a ps (Suc k) = Inr (r, ps')" by (simp add: put_loop_at)
      from "1.IH"(2)[OF lt _ this] True show ?thesis by simp
    next
      case m: False
      show ?thesis
      proof (cases "pool_ptrs (ps ! k) = None")
        case True
        with lt m "1.prems" show ?thesis by (simp add: put_loop_at)
      next
        case tb: False
        then obtain t where t: "pool_ptrs (ps ! k) = Some t" by auto
        from m obtain h where h: "mp (ps ! k) = Some h" by auto
        from lt h t "1.prems" obtain ret p1 where
          fr: "wcnss_free_pool_table_slot (ps ! k) a = Inr (ret, p1)"
          by (cases "wcnss_free_pool_table_slot (ps ! k) a") (auto simp: put_loop_at)
        note keep = free_slot_result[OF fr]
        show ?thesis
        proof (cases "ret \<ge> 0")
          case True
          with lt h t fr "1.prems" have ps': "ps' = ps[k := p1\<lparr>mp := map_option (mempool_free a) (mp p1)\<rparr>]"
            by (simp add: put_loop_at)
          show ?thesis
          proof (intro conjI allI impI)
            show "length ps' = length ps" by (simp add: ps')
          next
            fix n assume "n < length ps"
            with keep tb show "(mp (ps' ! n) = None) = (mp (ps ! n) = None)"
              by (cases "n = k") (simp_all add: ps')
          next
            fix n assume "n < length ps" "pool_ptrs (ps ! n) = None"
            with tb show "pool_ptrs (ps' ! n) = None"
              by (cases "n = k") (simp_all add: ps')
          qed
        next
          case False
          with lt h t fr "1.prems" have "put_loop a (ps[k := p1]) (Suc k) = Inr (r, ps')"
            by (simp add: put_loop_at)
          from "1.IH"(1)[OF lt m tb fr refl False this]
          have ih: "length ps' = length ps"
            "\<forall>n<length ps. (mp (ps' ! n) = None) = (mp (ps[k := p1] ! n) = None) \<and>
                    (pool_ptrs (ps[k := p1] ! n) = None \<longrightarrow> pool_ptrs (ps' ! n) = None)"
            by simp_all
          show ?thesis
          proof (intro conjI allI impI)
            show "length ps' = length ps" by (rule ih(1))
          next
            fix n assume n: "n < length ps"
            with ih(2) have "(mp (ps' ! n) = None) = (mp (ps[k := p1] ! n) = None)" by simp
            with keep n show "(mp (ps' ! n) = None) = (mp (ps ! n) = None)"
              by (cases "n = k") simp_all
          next
            fix n assume n: "n < length ps" "pool_ptrs (ps ! n) = None"
            with keep have "pool_ptrs (ps[k := p1] ! n) = None"
              by (cases "n = k") simp_all
            with ih(2) n show "pool_ptrs (ps' ! n) = None" by simp
          qed
        qed
      qed
    qed
  qed
qed

lemma put_keeps_lost:
  assumes "wcnss_prealloc_put (Some ps) a = Inr (r, s')"
    and "i < length ps" "mp (ps ! i) \<noteq> None" "pool_ptrs (ps ! i) = None"
  shows "\<exists>ps'. s' = Some ps' \<and> length ps' = length ps \<and> mp (ps' ! i) \<noteq> None \<and> pool_ptrs (ps' ! i) = None"
proof (cases "a = 0")
  case True
  with assms show ?thesis by (auto simp: wcnss_prealloc_put_def)
next
  case False
  with assms(1) obtain ps' where l: "put_loop a ps 0 = Inr (r, ps')" and s': "s' = Some ps'"
    by (auto simp: put_unfold split: sum.splits)
  from put_loop_keeps[OF l] assms(2,3,4) s' show ?thesis by auto
qed

lemma get_keeps_lost:
  assumes "wcnss_prealloc_get alloc ok (Some ps) sz = Inr (r, s')"
    and "i < length ps" "mp (ps ! i) \<noteq> None" "pool_ptrs (ps ! i) = None"
  shows "\<exists>ps'. s' = Some ps' \<and> length ps' = length ps \<and> mp (ps' ! i) \<noteq> None \<and> pool_ptrs (ps' ! i) = None"
proof -
  from assms(2) have ne: "ps \<noteq> []" by auto
  show ?thesis
  proof (cases "size_f (hd ps) \<le> sz")
    case False
    with assms ne show ?thesis
      by (cases ps) (auto simp: wcnss_prealloc_get_def cnss_pool_alloc_threshold_def)
  next
    case True
    from assms(1) obtain ps1 j mem ret where
      loop: "get_loop alloc ok sz ps 0 = Inr (ps1, j, mem, ret)"
      and s': "s' = (if ret < 0
                     then Some (ps1[j := (ps1 ! j)\<lparr>mp := map_option (mempool_free mem) (mp (ps1 ! j))\<rparr>])
                     else Some ps1)"
      by (auto simp: get_unfold[OF ne True] split: sum.splits if_splits)
    note out = get_loop_outcome[OF loop]
    from out have len: "length ps1 = length ps" by simp
    from out assms(2) have m1: "mp (ps1 ! i) \<noteq> None" using assms(3) by simp
    have ij: "i \<noteq> j \<or> mem = 0"
    proof (rule ccontr)
      assume "\<not> (i \<noteq> j \<or> mem = 0)"
      then have "i = j" "mem \<noteq> 0" by auto
      with out have "pool_ptrs (ps ! i) \<noteq> None" by simp
      with assms(4) show False by simp
    qed
    with out assms(2,4) have t1: "pool_ptrs (ps1 ! i) = None" by auto
    show ?thesis
    proof (cases "ret < 0")
      case False
      with s' len m1 t1 show ?thesis by simp
    next
      case True
      with out have "mem \<noteq> 0" by auto
      with ij have "i \<noteq> j" by simp
      with True s' len m1 t1 show ?thesis by simp
    qed
  qed
qed

lemma put_loop_stops:
  assumes "i < length ps" "mp (ps ! i) \<noteq> None" "pool_ptrs (ps ! i) = None"
    and "\<forall>n<i. passes a (ps ! n) \<or> pool_ptrs (ps ! n) = None"
  shows "put_loop a ps 0 = Inr (0, ps)"
proof (cases "\<exists>n<i. \<not> passes a (ps ! n)")
  case False
  with assms(1) have "put_loop a ps 0 = put_loop a ps i"
    by (intro put_loop_pass) auto
  with assms(1,2,3) show ?thesis by (simp add: put_loop_break)
next
  case True
  define m where "m = (LEAST n. n < i \<and> \<not> passes a (ps ! n))"
  from True have m: "m < i \<and> \<not> passes a (ps ! m)"
    unfolding m_def by (rule LeastI_ex)
  have least: "\<forall>n<m. passes a (ps ! n)"
  proof (intro allI impI)
    fix n assume "n < m"
    with m not_less_Least[of n "\<lambda>n. n < i \<and> \<not> passes a (ps ! n)"] show "passes a (ps ! n)"
      by (auto simp: m_def)
  qed
  from m assms(1) have "put_loop a ps 0 = put_loop a ps m"
    by (intro put_loop_pass) (use least in auto)
  moreover from m assms(4) have "pool_ptrs (ps ! m) = None" "mp (ps ! m) \<noteq> None"
    by (auto simp: passes_def)
  ultimately show ?thesis using m assms(1) by (simp add: put_loop_break)
qed

section \<open>Lemmas on the leak audit\<close>

lemma check_slots_ok:
  assumes "count \<le> length t"
  shows "check_slots (Some t) count nm k out =
     Inr (out @ map (\<lambda>j. (t ! j, nm, j)) (filter (\<lambda>j. t ! j \<noteq> 0) [k..<count]))"
  using assms
proof (induction "count - k" arbitrary: k out)
  case 0
  then show ?case by (simp add: check_slots_end)
next
  case (Suc d)
  then have lt: "k < count" and d: "d = count - Suc k" by simp_all
  from lt Suc.prems have kl: "k < length t" by simp
  from lt have up: "[k..<count] = k # [Suc k..<count]" by (simp add: upt_conv_Cons)
  from Suc.hyps(1)[OF d Suc.prems] lt kl show ?case
    by (simp add: check_slots_at read_slot_def up)
qed

lemma check_slots_absent:
  "0 < count \<Longrightarrow> check_slots None count nm 0 out = Inl NullDeref"
  by (simp add: check_slots_at read_slot_def)

lemma check_slots_auditable:
  assumes "auditable p"
  shows "check_slots (pool_ptrs p) (table_capacity p) (name p) 0 out = Inr (out @ leaks_of p)"
proof (cases "pool_ptrs p")
  case None
  with assms show ?thesis
    by (simp add: auditable_def check_slots_end leaks_of_def)
next
  case (Some t)
  with assms have le: "table_capacity p \<le> length t" by (simp add: auditable_def)
  have "map (\<lambda>j. (t ! j, name p, j)) (filter (\<lambda>j. t ! j \<noteq> 0) [0..<table_capacity p]) =
        map (\<lambda>j. (take (table_capacity p) t ! j, name p, j))
          (filter (\<lambda>j. take (table_capacity p) t ! j \<noteq> 0) [0..<table_capacity p])"
    by (intro map_cong filter_cong) auto
  with Some check_slots_ok[OF le, of "name p" 0 out] show ?thesis
    by (simp add: leaks_of_def slots_def)
qed

lemma check_pools_ok:
  assumes "\<forall>n<length ps. k \<le> n \<longrightarrow> auditable (ps ! n)"
  shows "check_pools ps k out = Inr (out @ concat (map leaks_of (drop k ps)))"
  using assms
proof (induction "length ps - k" arbitrary: k out)
  case 0
  then show ?case by (simp add: check_pools_end)
next
  case (Suc d)
  then have lt: "k < length ps" and d: "d = length ps - Suc k" by simp_all
  from Suc.prems lt have a: "auditable (ps ! k)" by simp
  from Suc.prems have rest: "\<forall>n<length ps. Suc k \<le> n \<longrightarrow> auditable (ps ! n)" by simp
  from lt have dr: "drop k ps = ps ! k # drop (Suc k) ps" by (simp add: Cons_nth_drop_Suc)
  from Suc.hyps(1)[OF d rest] lt show ?case
    by (simp add: check_pools_at check_slots_auditable[OF a] dr)
qed

lemma check_pools_null:
  assumes "i < length ps" "k \<le> i" "pool_ptrs (ps ! i) = None" "0 < table_capacity (ps ! i)"
    and "\<forall>n. k \<le> n \<and> n < i \<longrightarrow> in_bounds (ps ! n)"
  shows "check_pools ps k out = Inl NullDeref"
  using assms
proof (induction "i - k" arbitrary: k out)
  case 0
  then have "k = i" by simp
  with 0 show ?case by (simp add: check_pools_at check_slots_absent)
next
  case (Suc d)
  then have lt: "k < i" and d: "d = i - Suc k" by simp_all
  with Suc.prems have kl: "k < length ps" by simp
  from Suc.prems lt have ib: "in_bounds (ps ! k)" by simp
  from Suc.prems lt have rest: "\<forall>n. Suc k \<le> n \<and> n < i \<longrightarrow> in_bounds (ps ! n)" by simp
  from lt have le: "Suc k \<le> i" by simp
  note ih = Suc.hyps(1)[OF d Suc.prems(1) le Suc.prems(3,4) rest]
  show ?case
  proof (cases "auditable (ps ! k)")
    case True
    with kl ih show ?thesis
      by (simp add: check_pools_at check_slots_auditable)
  next
    case False
    with ib have "pool_ptrs (ps ! k) = None" "0 < table_capacity (ps ! k)"
      by (auto simp: in_bounds_def auditable_def split: option.splits)
    with kl show ?thesis by (simp add: check_pools_at check_slots_absent)
  qed
qed

lemma audit_null_iff:
  assumes "\<forall>n<length ps. in_bounds (ps ! n)"
  shows "(wcnss_check_pool_lists (Some ps) = Inl NullDeref) =
         (\<exists>i<length ps. pool_ptrs (ps ! i) = None \<and> 0 < table_capacity (ps ! i))"
proof
  assume "\<exists>i<length ps. pool_ptrs (ps ! i) = None \<and> 0 < table_capacity (ps ! i)"
  then obtain i where "i < length ps" "pool_ptrs (ps ! i) = None" "0 < table_capacity (ps ! i)"
    by blast
  with assms have "check_pools ps 0 [] = Inl NullDeref"
    by (intro check_pools_null[of i]) auto
  then show "wcnss_check_pool_lists (Some ps) = Inl NullDeref"
    by (simp add: wcnss_check_pool_lists_def)
next
  assume n: "wcnss_check_pool_lists (Some ps) = Inl NullDeref"
  show "\<exists>i<length ps. pool_ptrs (ps ! i) = None \<and> 0 < table_capacity (ps ! i)"
  proof (rule ccontr)
    assume "\<not> (\<exists>i<length ps. pool_ptrs (ps ! i) = None \<and> 0 < table_capacity (ps ! i))"
    with assms have "\<forall>n<length ps. 0 \<le> n \<longrightarrow> auditable (ps ! n)"
      by (auto simp: in_bounds_def auditable_def split: option.splits)
    from check_pools_ok[OF this, of "[]"] n show False
      by (simp add: wcnss_check_pool_lists_def)
  qed
qed

lemma init_loop_nth:
  "length (init_loop env ps k) = length ps \<and>
   (\<forall>n<length ps. init_loop env ps k ! n = (if k \<le> n then init_tier (env n) (ps ! n) else ps ! n))"
proof (induction "length ps - k" arbitrary: k ps)
  case 0
  then show ?case by (simp add: init_loop_end)
next
  case (Suc d)
  then have lt: "k < length ps" by simp
  let ?ps = "ps[k := init_tier (env k) (ps ! k)]"
  from Suc.hyps(2) have d: "d = length ?ps - Suc k" by simp
  from Suc.hyps(1)[OF d] have ih: "length (init_loop env ?ps (Suc k)) = length ps"
    "\<forall>n<length ps. init_loop env ?ps (Suc k) ! n =
        (if Suc k \<le> n then init_tier (env n) (?ps ! n) else ?ps ! n)"
    by simp_all
  from lt have unf: "init_loop env ps k = init_loop env ?ps (Suc k)" by (simp add: init_loop_at)
  show ?case
  proof (intro conjI allI impI)
    show "length (init_loop env ps k) = length ps" by (simp add: unf ih(1))
  next
    fix n assume n: "n < length ps"
    consider "n < k" | "n = k" | "Suc k \<le> n" by linarith
    then show "init_loop env ps k ! n = (if k \<le> n then init_tier (env n) (ps ! n) else ps ! n)"
    proof cases
      case 1
      with ih(2) n show ?thesis by (simp add: unf)
    next
      case 2
      with ih(2) n show ?thesis by (simp add: unf)
    next
      case 3
      with ih(2) n show ?thesis by (simp add: unf)
    qed
  qed
qed
section \<open>What initialisation, acquire and release keep\<close>

text \<open>
  The block size of a tier is written by no routine, and a table that is present never
  has fewer slots than the capacity of its tier: the initialisers have no table,
  \<^verbatim>\<open>cnss_pool_init\<close> sets a table of \<open>min\<close> slots with the capacity \<open>min\<close>, the insert
  grows both by one or loses the table, and the remove writes within the table.
\<close>

lemma in_bounds_asked:
  "in_bounds (asked r p) = in_bounds p"
  by (simp add: in_bounds_def split: option.splits)

lemma find_slot_bounds:
  assumes "wcnss_find_pool_table_slot ok p mem = Inr (ret, p')" and "in_bounds p"
  shows "in_bounds p'"
proof (cases "scan_slots (pool_ptrs p) (table_capacity p) 0 0")
  case (Inl f)
  with assms show ?thesis by (simp add: wcnss_find_pool_table_slot_def)
next
  case (Inr r)
  have "table_capacity p = 0" if "pool_ptrs p = None" "r = None"
  proof (rule ccontr)
    assume "table_capacity p \<noteq> 0"
    then have "scan_slots None (table_capacity p) 0 0 = Inl NullDeref"
      by (simp add: scan_slots_at read_slot_def)
    with Inr that show False by simp
  qed
  with Inr assms show ?thesis
    by (cases r; cases ok; cases "pool_ptrs p")
       (auto simp: wcnss_find_pool_table_slot_def in_bounds_def)
qed

lemma free_slot_keeps:
  assumes "wcnss_free_pool_table_slot p a = Inr (ret, p')"
  shows "size_f p' = size_f p \<and> (in_bounds p \<longrightarrow> in_bounds p')"
proof (cases "scan_slots (pool_ptrs p) (table_capacity p) a 0")
  case (Inl f)
  with assms show ?thesis by (simp add: wcnss_free_pool_table_slot_def)
next
  case (Inr r)
  with assms show ?thesis
    by (cases r; cases "pool_ptrs p")
       (auto simp: wcnss_free_pool_table_slot_def in_bounds_def)
qed

lemma put_loop_sizes:
  "put_loop a ps k = Inr (r, ps') \<Longrightarrow>
     length ps' = length ps \<and>
     (\<forall>n<length ps. size_f (ps' ! n) = size_f (ps ! n) \<and> (in_bounds (ps ! n) \<longrightarrow> in_bounds (ps' ! n)))"
proof (induction a ps k rule: put_loop.induct)
  case (1 a ps k)
  show ?case
  proof (cases "k < length ps")
    case False
    with "1.prems" show ?thesis by (simp add: put_loop_end)
  next
    case lt: True
    show ?thesis
    proof (cases "mp (ps ! k) = None")
      case True
      with lt "1.prems" have "put_loop a ps (Suc k) = Inr (r, ps')" by (simp add: put_loop_at)
      from "1.IH"(2)[OF lt _ this] True show ?thesis by simp
    next
      case m: False
      show ?thesis
      proof (cases "pool_ptrs (ps ! k) = None")
        case True
        with lt m "1.prems" show ?thesis by (simp add: put_loop_at)
      next
        case tb: False
        then obtain t where t: "pool_ptrs (ps ! k) = Some t" by auto
        from m obtain h where h: "mp (ps ! k) = Some h" by auto
        from lt h t "1.prems" obtain ret p1 where
          fr: "wcnss_free_pool_table_slot (ps ! k) a = Inr (ret, p1)"
          by (cases "wcnss_free_pool_table_slot (ps ! k) a") (auto simp: put_loop_at)
        note keep = free_slot_keeps[OF fr]
        show ?thesis
        proof (cases "ret \<ge> 0")
          case True
          with lt h t fr "1.prems" have ps': "ps' = ps[k := p1\<lparr>mp := map_option (mempool_free a) (mp p1)\<rparr>]"
            by (simp add: put_loop_at)
          show ?thesis
          proof (intro conjI allI impI)
            show "length ps' = length ps" by (simp add: ps')
          next
            fix n assume "n < length ps"
            with keep show "size_f (ps' ! n) = size_f (ps ! n)"
              by (cases "n = k") (simp_all add: ps')
          next
            fix n assume "n < length ps" "in_bounds (ps ! n)"
            with keep show "in_bounds (ps' ! n)"
              by (cases "n = k") (simp_all add: ps' in_bounds_def split: option.splits)
          qed
        next
          case False
          with lt h t fr "1.prems" have "put_loop a (ps[k := p1]) (Suc k) = Inr (r, ps')"
            by (simp add: put_loop_at)
          from "1.IH"(1)[OF lt m tb fr refl False this]
          have ih: "length ps' = length ps"
            "\<forall>n<length ps. size_f (ps' ! n) = size_f (ps[k := p1] ! n) \<and>
                    (in_bounds (ps[k := p1] ! n) \<longrightarrow> in_bounds (ps' ! n))"
            by simp_all
          show ?thesis
          proof (intro conjI allI impI)
            show "length ps' = length ps" by (rule ih(1))
          next
            fix n assume n: "n < length ps"
            with ih(2) have "size_f (ps' ! n) = size_f (ps[k := p1] ! n)" by simp
            with keep n show "size_f (ps' ! n) = size_f (ps ! n)"
              by (cases "n = k") simp_all
          next
            fix n assume n: "n < length ps" "in_bounds (ps ! n)"
            with keep have "in_bounds (ps[k := p1] ! n)"
              by (cases "n = k") simp_all
            with ih(2) n show "in_bounds (ps' ! n)" by simp
          qed
        qed
      qed
    qed
  qed
qed

lemma put_keeps:
  assumes "wcnss_prealloc_put (Some ps) a = Inr (r, Some ps')"
  shows "length ps' = length ps \<and>
     (\<forall>n<length ps. size_f (ps' ! n) = size_f (ps ! n) \<and> (in_bounds (ps ! n) \<longrightarrow> in_bounds (ps' ! n)))"
proof (cases "a = 0")
  case True
  with assms show ?thesis by (simp add: wcnss_prealloc_put_def)
next
  case False
  with assms have "put_loop a ps 0 = Inr (r, ps')"
    by (auto simp: wcnss_prealloc_put_def split: sum.splits)
  then show ?thesis by (rule put_loop_sizes)
qed

lemma get_keeps:
  assumes "wcnss_prealloc_get alloc ok (Some ps) sz = Inr (r, Some ps')"
  shows "length ps' = length ps \<and>
     (\<forall>n<length ps. size_f (ps' ! n) = size_f (ps ! n) \<and> (in_bounds (ps ! n) \<longrightarrow> in_bounds (ps' ! n)))"
proof (cases "ps \<noteq> [] \<and> size_f (hd ps) \<le> sz")
  case False
  with assms have "ps' = ps"
    by (cases ps) (auto simp: wcnss_prealloc_get_def cnss_pool_alloc_threshold_def split: if_splits)
  then show ?thesis by simp
next
  case True
  then have ne: "ps \<noteq> []" and th: "size_f (hd ps) \<le> sz" by simp_all
  note run = get_run[OF ne th, of alloc ok]
  have fails: "size_f (after_failures sz j ps ! n) = size_f (ps ! n) \<and>
      (in_bounds (ps ! n) \<longrightarrow> in_bounds (after_failures sz j ps ! n))" if "n < length ps" for j n
    using that by (simp add: in_bounds_asked)
  show ?thesis
  proof (cases "stop_tier alloc sz ps")
    case None
    with assms run have "ps' = after_failures sz (length ps) ps" by simp
    then show ?thesis by (simp add: in_bounds_asked)
  next
    case (Some j)
    note j = stop_tier_Some[OF Some]
    show ?thesis
    proof (cases "pool_ptrs (ps ! j)")
      case None
      with assms run Some have "ps' = after_failures sz j ps" by simp
      then show ?thesis by (simp add: in_bounds_asked)
    next
      case (Some t)
      with assms run \<open>stop_tier alloc sz ps = Some j\<close> obtain ret p2 where
        fs: "wcnss_find_pool_table_slot ok (ps ! j) (alloc j) = Inr (ret, p2)"
        by (cases "wcnss_find_pool_table_slot ok (ps ! j) (alloc j)") auto
      from find_slot_result[OF fs] have sz2: "size_f p2 = size_f (ps ! j)" by simp
      note b2 = find_slot_bounds[OF fs]
      have "wcnss_prealloc_get alloc ok (Some ps) sz =
          (if ret < 0 then
             Inr (0, Some ((after_failures sz j ps)
                  [j := (asked (alloc j) p2)
                     \<lparr>mp := map_option (mempool_free (alloc j)) (mp (asked (alloc j) p2))\<rparr>]))
           else Inr (alloc j, Some ((after_failures sz j ps)[j := asked (alloc j) p2])))"
        unfolding run by (simp add: \<open>stop_tier alloc sz ps = Some j\<close> Some fs)
      with assms
      have ps': "ps' = (after_failures sz j ps)[j := asked (alloc j) p2] \<or>
          ps' = (after_failures sz j ps)
                  [j := (asked (alloc j) p2)
                     \<lparr>mp := map_option (mempool_free (alloc j)) (mp (asked (alloc j) p2))\<rparr>]"
        by (cases "ret < 0") auto
      show ?thesis
      proof (intro conjI allI impI)
        from ps' show "length ps' = length ps" by auto
      next
        fix n assume n: "n < length ps"
        show "size_f (ps' ! n) = size_f (ps ! n)"
        proof (cases "n = j")
          case True
          with ps' n sz2 show ?thesis by auto
        next
          case False
          with ps' n fails[OF n, of j] show ?thesis by auto
        qed
      next
        fix n assume n: "n < length ps" "in_bounds (ps ! n)"
        show "in_bounds (ps' ! n)"
        proof (cases "n = j")
          case True
          with n b2 have "in_bounds p2" by simp
          then have "in_bounds (asked (alloc j) p2)"
            "in_bounds ((asked (alloc j) p2)
               \<lparr>mp := map_option (mempool_free (alloc j)) (mp (asked (alloc j) p2))\<rparr>)"
            by (simp_all add: in_bounds_def split: option.splits)
          with True ps' n show ?thesis by auto
        next
          case False
          with ps' n fails[OF n(1), of j] show ?thesis by auto
        qed
      qed
    qed
  qed
qed

lemma init_keeps:
  "length (init_loop env ps 0) = length ps \<and>
   (\<forall>n<length ps. size_f (init_loop env ps 0 ! n) = size_f (ps ! n) \<and>
                  (in_bounds (ps ! n) \<longrightarrow> in_bounds (init_loop env ps 0 ! n)))"
proof (intro conjI allI impI)
  show "length (init_loop env ps 0) = length ps" using init_loop_nth[of env ps 0] by simp
next
  fix n assume n: "n < length ps"
  with init_loop_nth[of env ps 0] have e: "init_loop env ps 0 ! n = init_tier (env n) (ps ! n)"
    by simp
  show "size_f (init_loop env ps 0 ! n) = size_f (ps ! n)"
    unfolding e by (simp add: init_tier_def)
  assume "in_bounds (ps ! n)"
  then show "in_bounds (init_loop env ps 0 ! n)"
    unfolding e
    by (cases "kmalloc_res (env n)") (auto simp: init_tier_def in_bounds_def split: option.splits)
qed

lemma same_sizes:
  assumes "length ps' = length ps" "\<forall>n<length ps. size_f (ps' ! n) = size_f (ps ! n)"
  shows "map size_f ps' = map size_f ps"
  using assms by (intro nth_equalityI) simp_all

lemma shipped_sorted:
  "sorted (map size_f cnss_pools_default)"
  "sorted (map size_f cnss_pools_adrastea)"
  "sorted (map size_f cnss_pools_wcn6750)"
  by (simp_all add: cnss_pools_default_def cnss_pools_adrastea_def cnss_pools_wcn6750_def mk_pool_def)

lemma shipped_in_bounds:
  "\<forall>p\<in>set cnss_pools_default. in_bounds p"
  "\<forall>p\<in>set cnss_pools_adrastea. in_bounds p"
  "\<forall>p\<in>set cnss_pools_wcn6750. in_bounds p"
  by (simp_all add: cnss_pools_default_def cnss_pools_adrastea_def cnss_pools_wcn6750_def mk_pool_def
      in_bounds_def)

text \<open>
  Where the loop of acquire has been when the call returns: \<open>k\<close> is the tier at which it
  ended, or the number of tiers when it went through all of them.
\<close>

lemma get_shape:
  assumes "ps \<noteq> []" "size_f (hd ps) \<le> sz"
    and "wcnss_prealloc_get alloc ok (Some ps) sz = Inr (r, s')"
  shows "\<exists>ps' k. s' = Some ps' \<and> length ps' = length ps \<and> k \<le> length ps \<and>
     (\<forall>n<k. eligible sz (ps ! n) \<longrightarrow> pool_ptrs (ps ! n) \<noteq> None \<and> alloc n = 0 \<and> ps' ! n = asked 0 (ps ! n)) \<and>
     (\<forall>n<k. \<not> eligible sz (ps ! n) \<longrightarrow> ps' ! n = ps ! n) \<and>
     (\<forall>n. k < n \<and> n < length ps \<longrightarrow> ps' ! n = ps ! n) \<and>
     (k = length ps \<longrightarrow> r = 0) \<and>
     (k < length ps \<longrightarrow> eligible sz (ps ! k) \<and>
        (pool_ptrs (ps ! k) = None \<longrightarrow> r = 0 \<and> ps' ! k = ps ! k) \<and>
        (pool_ptrs (ps ! k) \<noteq> None \<longrightarrow> alloc k \<noteq> 0 \<and>
           (r = alloc k \<and> recorded r (ps' ! k) \<and> mp (ps' ! k) = mp (asked (alloc k) (ps ! k)) \<or>
            r = 0 \<and> pool_ptrs (ps' ! k) = None \<and>
              mp (ps' ! k) = map_option (mempool_free (alloc k)) (mp (asked (alloc k) (ps ! k))))))"
proof -
  note run = get_run[OF assms(1,2), of alloc ok]
  show ?thesis
  proof (cases "stop_tier alloc sz ps")
    case None
    with assms(3) run have res: "r = 0" "s' = Some (after_failures sz (length ps) ps)" by simp_all
    from stop_tier_None[OF None] res show ?thesis
      by (intro exI[of _ "after_failures sz (length ps) ps"] exI[of _ "length ps"]) auto
  next
    case st: (Some j)
    note j = stop_tier_Some[OF st]
    show ?thesis
    proof (cases "pool_ptrs (ps ! j)")
      case None
      with assms(3) run st have res: "r = 0" "s' = Some (after_failures sz j ps)" by simp_all
      from j None res show ?thesis
        by (intro exI[of _ "after_failures sz j ps"] exI[of _ j]) auto
    next
      case (Some t)
      with j have nz: "alloc j \<noteq> 0" by simp
      from Some assms(3) run st obtain ret p2 where
        fs: "wcnss_find_pool_table_slot ok (ps ! j) (alloc j) = Inr (ret, p2)"
        by (cases "wcnss_find_pool_table_slot ok (ps ! j) (alloc j)") auto
      note fr = find_slot_result[OF fs]
      have eq: "wcnss_prealloc_get alloc ok (Some ps) sz =
          (if ret < 0 then
             Inr (0, Some ((after_failures sz j ps)
                  [j := (asked (alloc j) p2)
                     \<lparr>mp := map_option (mempool_free (alloc j)) (mp (asked (alloc j) p2))\<rparr>]))
           else Inr (alloc j, Some ((after_failures sz j ps)[j := asked (alloc j) p2])))"
        unfolding run by (simp add: st Some fs)
      show ?thesis
      proof (cases "ret < 0")
        case True
        with eq assms(3) have res: "r = 0"
          "s' = Some ((after_failures sz j ps)
                  [j := (asked (alloc j) p2)
                     \<lparr>mp := map_option (mempool_free (alloc j)) (mp (asked (alloc j) p2))\<rparr>])"
          by auto
        from j Some nz fr True res(1) show ?thesis
          unfolding res(2)
          by (intro exI[of _ "(after_failures sz j ps)
                  [j := (asked (alloc j) p2)
                     \<lparr>mp := map_option (mempool_free (alloc j)) (mp (asked (alloc j) p2))\<rparr>]"]
                 exI[of _ j]) auto
      next
        case False
        with eq assms(3) have res: "r = alloc j"
          "s' = Some ((after_failures sz j ps)[j := asked (alloc j) p2])"
          by auto
        from j Some nz fr False res(1) show ?thesis
          unfolding res(2)
          by (intro exI[of _ "(after_failures sz j ps)[j := asked (alloc j) p2]"] exI[of _ j])
             (auto simp: recorded_def)
      qed
    qed
  qed
qed

section \<open>Growth of a full tracking table\<close>

text \<open>
  C5.  Let no slot of a tier's tracking table be empty (the table being readable over
  its capacity).  Then an insert that succeeds, which is one that returns 0, has grown
  the table by exactly one slot: the reallocation has succeeded, the new capacity is
  the old capacity plus one, the new address is in the added slot, which is the last,
  and the slots before it are the old slots, each with the address it held, in the
  same place; so no recorded address is lost and none appears twice that did not
  before.
\<close>

theorem insert_grows_by_one:
  assumes "auditable p" and "0 \<notin> set (slots p)"
    and "wcnss_find_pool_table_slot krealloc_ok p mem = Inr (ret, p')" and "ret = 0"
  shows "krealloc_ok \<and> table_capacity p' = table_capacity p + 1 \<and>
         pool_ptrs p' = Some (slots p @ [mem]) \<and>
         slots p' = slots p @ [mem] \<and> length (slots p') = table_capacity p' \<and>
         slots p' ! table_capacity p = mem \<and>
         (\<forall>k<table_capacity p. slots p' ! k = slots p ! k) \<and>
         count_list (slots p') mem = Suc (count_list (slots p) mem) \<and>
         (\<forall>a. a \<noteq> mem \<longrightarrow> count_list (slots p') a = count_list (slots p) a)"
proof -
  from assms(3,4) find_slot_full_slots[OF assms(1,2), of krealloc_ok mem]
  have ok: krealloc_ok
    and p': "p' = p\<lparr>pool_ptrs := Some (slots p @ [mem]), table_capacity := table_capacity p + 1\<rparr>"
    by (auto simp: EPERM_def split: if_splits)
  from assms(1) have len: "length (slots p) = table_capacity p"
    by (auto simp: auditable_def slots_def split: option.splits)
  from p' len have sl: "slots p' = slots p @ [mem]"
    by (simp add: slots_def)
  from sl len p' have "length (slots p') = table_capacity p'" by simp
  moreover from sl len have "slots p' ! table_capacity p = mem" by (simp add: nth_append)
  moreover from sl len have "\<forall>k<table_capacity p. slots p' ! k = slots p ! k"
    by (simp add: nth_append)
  moreover from sl have "count_list (slots p') mem = Suc (count_list (slots p) mem)" by simp
  moreover from sl have "\<forall>a. a \<noteq> mem \<longrightarrow> count_list (slots p') a = count_list (slots p) a" by simp
  ultimately show ?thesis using ok p' sl by simp
qed

theorem insert_grows_by_one_witness:
  "wcnss_find_pool_table_slot True (ready_tier 8192 ''cnss-pool-8k'' [5, 7]) 9 =
     Inr (0, (ready_tier 8192 ''cnss-pool-8k'' [5, 7])\<lparr>pool_ptrs := Some [5, 7, 9], table_capacity := 3\<rparr>) \<and>
   table_capacity ((ready_tier 8192 ''cnss-pool-8k'' [5, 7])\<lparr>pool_ptrs := Some [5, 7, 9], table_capacity := 3\<rparr>) =
     table_capacity (ready_tier 8192 ''cnss-pool-8k'' [5, 7]) + 1 \<and>
   slots ((ready_tier 8192 ''cnss-pool-8k'' [5, 7])\<lparr>pool_ptrs := Some [5, 7, 9], table_capacity := 3\<rparr>) =
     slots (ready_tier 8192 ''cnss-pool-8k'' [5, 7]) @ [9]"
proof -
  have h1: "auditable (ready_tier 8192 ''cnss-pool-8k'' [5, 7])"
    by (simp add: ready_tier_def auditable_def)
  have h2: "0 \<notin> set (slots (ready_tier 8192 ''cnss-pool-8k'' [5, 7]))"
    by (simp add: ready_tier_def slots_def)
  have h3: "wcnss_find_pool_table_slot True (ready_tier 8192 ''cnss-pool-8k'' [5, 7]) 9 =
     Inr (0, (ready_tier 8192 ''cnss-pool-8k'' [5, 7])\<lparr>pool_ptrs := Some [5, 7, 9], table_capacity := 3\<rparr>)"
    by (simp add: run_loops ready_tier_def)
  from insert_grows_by_one[OF h1 h2 h3 refl] h3 show ?thesis
    by blast
qed

section \<open>Requests below the threshold\<close>

text \<open>
  C8.  A request whose size is strictly below the block size of every tier, hence below
  the smallest, engages no tier: acquire returns the null pointer and leaves the state
  as it was, so no backing allocator has been asked and no tracking table has changed.
\<close>

theorem acquire_below_threshold:
  assumes "ps \<noteq> []" and "\<forall>p\<in>set ps. sz < size_f p"
  shows "wcnss_prealloc_get alloc krealloc_ok (Some ps) sz = Inr (0, Some ps)"
  using assms by (cases ps) (simp_all add: wcnss_prealloc_get_def cnss_pool_alloc_threshold_def)

theorem acquire_below_threshold_witness:
  "wcnss_prealloc_get (\<lambda>i. 4096) True
     (Some [ready_tier 8192 ''cnss-pool-8k'' [0, 0], ready_tier 16384 ''cnss-pool-16k'' [0, 0]]) 8191 =
   Inr (0, Some [ready_tier 8192 ''cnss-pool-8k'' [0, 0], ready_tier 16384 ''cnss-pool-16k'' [0, 0]])"
proof -
  have h1: "[ready_tier 8192 ''cnss-pool-8k'' [0, 0], ready_tier 16384 ''cnss-pool-16k'' [0, 0]] \<noteq> []"
    by simp
  have h2: "\<forall>p\<in>set [ready_tier 8192 ''cnss-pool-8k'' [0, 0], ready_tier 16384 ''cnss-pool-16k'' [0, 0]].
      8191 < size_f p"
    by (simp add: ready_tier_def)
  from acquire_below_threshold[OF h1 h2] show ?thesis .
qed

section \<open>Exhaustion of the first fitting tier\<close>

text \<open>
  C1 as stated does not hold: when the first fitting tier has no block the loop goes on.
  With the tiers 8k and 16k and a request of 8192 bytes, the 8k tier is the first tier
  that is large enough and has its allocator; its allocator returns NULL, the allocator
  of the 16k tier is asked next, and acquire returns the block it gives.
\<close>

theorem hard_stop_counterexample:
  "eligible 8192 (two_tiers ! 0) \<and> first_fails 0 = 0 \<and>
   wcnss_prealloc_get first_fails True (Some two_tiers) 8192 =
     Inr (4096, Some [asked 0 (two_tiers ! 0),
                      (asked 4096 (two_tiers ! 1))\<lparr>pool_ptrs := Some [4096, 0]\<rparr>])"
proof -
  have "eligible 8192 (two_tiers ! 0)"
    by (simp add: eligible_def two_tiers_def ready_tier_def)
  moreover have "first_fails 0 = 0"
    by (simp add: first_fails_def)
  moreover have "wcnss_prealloc_get first_fails True (Some two_tiers) 8192 =
     Inr (4096, Some [asked 0 (two_tiers ! 0),
                      (asked 4096 (two_tiers ! 1))\<lparr>pool_ptrs := Some [4096, 0]\<rparr>])"
    by (simp add: run_loops two_tiers_def ready_tier_def first_fails_def asked_def)
  ultimately show ?thesis by blast
qed

text \<open>
  C1, amended.  Let the request be at or above the threshold, and let the first tier
  that acquire takes (block size sufficient, allocator present) be asked, its table
  pointer not being NULL, and give no block.  Then acquire does not stop there.  It
  goes on through the following tiers in the order of the array and asks the
  allocator of every tier it takes, as long as each has a table pointer that is not
  NULL and gives no block.  When it comes in this way to a tier \<open>j\<close> whose allocator
  gives a block, it ends there: if the insert into the table of tier \<open>j\<close> returns 0
  it returns the block, recorded in that table, and if the insert returns a negative
  value it returns null, with the block given back to the allocator of tier \<open>j\<close>.
  When it comes to a tier \<open>j\<close> that it takes whose table pointer is NULL, it returns
  null and tier \<open>j\<close> is not asked.  When every tier it takes has been asked and has
  given no block, it returns null.  In each case the tiers it has gone through have
  had one request each, the first tier among them, and no tier after the one where
  it ends has been asked: the state left is given in full.
\<close>

theorem acquire_goes_on_to_larger_tiers:
  assumes "i < length ps" and "size_f (hd ps) \<le> sz"
    and "eligible sz (ps ! i)" and "\<forall>n<i. \<not> eligible sz (ps ! n)"
    and "pool_ptrs (ps ! i) \<noteq> None" and "alloc i = 0"
  shows "(\<forall>j ret p2.
            i < j \<and> j < length ps \<and> eligible sz (ps ! j) \<and> pool_ptrs (ps ! j) \<noteq> None \<and> alloc j \<noteq> 0 \<and>
            (\<forall>n. i < n \<and> n < j \<and> eligible sz (ps ! n) \<longrightarrow> alloc n = 0 \<and> pool_ptrs (ps ! n) \<noteq> None) \<and>
            wcnss_find_pool_table_slot krealloc_ok (ps ! j) (alloc j) = Inr (ret, p2) \<longrightarrow>
            (\<not> ret < 0 \<longrightarrow>
               wcnss_prealloc_get alloc krealloc_ok (Some ps) sz =
                 Inr (alloc j, Some ((after_failures sz j ps)[j := asked (alloc j) p2])) \<and>
               recorded (alloc j) (asked (alloc j) p2)) \<and>
            (ret < 0 \<longrightarrow>
               wcnss_prealloc_get alloc krealloc_ok (Some ps) sz =
                 Inr (0, Some ((after_failures sz j ps)
                                 [j := (asked (alloc j) p2)
                                    \<lparr>mp := map_option (mempool_free (alloc j)) (mp (asked (alloc j) p2))\<rparr>])))) \<and>
         (\<forall>j. i < j \<and> j < length ps \<and> eligible sz (ps ! j) \<and> pool_ptrs (ps ! j) = None \<and>
            (\<forall>n. i < n \<and> n < j \<and> eligible sz (ps ! n) \<longrightarrow> alloc n = 0 \<and> pool_ptrs (ps ! n) \<noteq> None) \<longrightarrow>
            wcnss_prealloc_get alloc krealloc_ok (Some ps) sz = Inr (0, Some (after_failures sz j ps))) \<and>
         ((\<forall>n. i < n \<and> n < length ps \<and> eligible sz (ps ! n) \<longrightarrow> alloc n = 0 \<and> pool_ptrs (ps ! n) \<noteq> None) \<longrightarrow>
            wcnss_prealloc_get alloc krealloc_ok (Some ps) sz =
              Inr (0, Some (after_failures sz (length ps) ps))) \<and>
         (\<forall>j. i < j \<and> j \<le> length ps \<longrightarrow>
            after_failures sz j ps ! i = asked 0 (ps ! i) \<and>
            (\<forall>n. j \<le> n \<and> n < length ps \<longrightarrow> after_failures sz j ps ! n = ps ! n))"
proof -
  from assms(1) have ne: "ps \<noteq> []" by auto
  note run = get_run[OF ne assms(2), of alloc krealloc_ok]
  have upto: "\<forall>n<j. eligible sz (ps ! n) \<longrightarrow> alloc n = 0 \<and> pool_ptrs (ps ! n) \<noteq> None"
    if "\<forall>n. i < n \<and> n < j \<and> eligible sz (ps ! n) \<longrightarrow> alloc n = 0 \<and> pool_ptrs (ps ! n) \<noteq> None" for j
  proof (intro allI impI)
    fix n assume n: "n < j" "eligible sz (ps ! n)"
    with assms(4) have "i \<le> n" by (meson not_le)
    with that assms(5,6) n show "alloc n = 0 \<and> pool_ptrs (ps ! n) \<noteq> None"
      by (cases "n = i") auto
  qed
  show ?thesis
  proof (intro conjI allI impI)
    fix j ret p2
    assume a: "i < j \<and> j < length ps \<and> eligible sz (ps ! j) \<and> pool_ptrs (ps ! j) \<noteq> None \<and> alloc j \<noteq> 0 \<and>
            (\<forall>n. i < n \<and> n < j \<and> eligible sz (ps ! n) \<longrightarrow> alloc n = 0 \<and> pool_ptrs (ps ! n) \<noteq> None) \<and>
            wcnss_find_pool_table_slot krealloc_ok (ps ! j) (alloc j) = Inr (ret, p2)"
    then have st: "stop_tier alloc sz ps = Some j"
      by (intro stop_tier_SomeI upto) simp_all
    from a obtain t where t: "pool_ptrs (ps ! j) = Some t" by auto
    from a have fs: "wcnss_find_pool_table_slot krealloc_ok (ps ! j) (alloc j) = Inr (ret, p2)" by simp
    {
      assume r: "\<not> ret < 0"
      show "wcnss_prealloc_get alloc krealloc_ok (Some ps) sz =
                 Inr (alloc j, Some ((after_failures sz j ps)[j := asked (alloc j) p2]))"
        unfolding run st by (simp add: t fs r)
      from find_slot_result[OF fs] r
      show "recorded (alloc j) (asked (alloc j) p2)"
        by (simp add: recorded_def)
    }
    {
      assume r: "ret < 0"
      show "wcnss_prealloc_get alloc krealloc_ok (Some ps) sz =
                 Inr (0, Some ((after_failures sz j ps)
                                 [j := (asked (alloc j) p2)
                                    \<lparr>mp := map_option (mempool_free (alloc j)) (mp (asked (alloc j) p2))\<rparr>]))"
        unfolding run st by (simp add: t fs r)
    }
  next
    fix j
    assume a: "i < j \<and> j < length ps \<and> eligible sz (ps ! j) \<and> pool_ptrs (ps ! j) = None \<and>
            (\<forall>n. i < n \<and> n < j \<and> eligible sz (ps ! n) \<longrightarrow> alloc n = 0 \<and> pool_ptrs (ps ! n) \<noteq> None)"
    then have "stop_tier alloc sz ps = Some j"
      by (intro stop_tier_SomeI upto) simp_all
    with a show "wcnss_prealloc_get alloc krealloc_ok (Some ps) sz = Inr (0, Some (after_failures sz j ps))"
      by (simp add: run)
  next
    assume a: "\<forall>n. i < n \<and> n < length ps \<and> eligible sz (ps ! n) \<longrightarrow> alloc n = 0 \<and> pool_ptrs (ps ! n) \<noteq> None"
    then have "\<forall>n<length ps. eligible sz (ps ! n) \<longrightarrow> alloc n = 0 \<and> pool_ptrs (ps ! n) \<noteq> None"
      by (rule upto)
    then have "stop_tier alloc sz ps = None" by (rule stop_tier_NoneI)
    then show "wcnss_prealloc_get alloc krealloc_ok (Some ps) sz =
              Inr (0, Some (after_failures sz (length ps) ps))"
      by (simp add: run)
  next
    fix j assume "i < j \<and> j \<le> length ps"
    with assms(1,3) show "after_failures sz j ps ! i = asked 0 (ps ! i)" by simp
  next
    fix j n assume "i < j \<and> j \<le> length ps" "j \<le> n \<and> n < length ps"
    then show "after_failures sz j ps ! n = ps ! n" by simp
  qed
qed

theorem acquire_goes_on_to_larger_tiers_witness:
  "wcnss_prealloc_get first_fails True (Some two_tiers) 8192 =
     Inr (first_fails 1,
          Some ((after_failures 8192 1 two_tiers)
                  [1 := asked (first_fails 1) ((two_tiers ! 1)\<lparr>pool_ptrs := Some [4096, 0]\<rparr>)])) \<and>
   recorded (first_fails 1) (asked (first_fails 1) ((two_tiers ! 1)\<lparr>pool_ptrs := Some [4096, 0]\<rparr>)) \<and>
   wcnss_prealloc_get first_fails False (Some mid_tier_full) 8192 =
     Inr (0, Some ((after_failures 8192 1 mid_tier_full)
                     [1 := (asked (first_fails 1) ((mid_tier_full ! 1)\<lparr>pool_ptrs := None\<rparr>))
                        \<lparr>mp := map_option (mempool_free (first_fails 1))
                                 (mp (asked (first_fails 1) ((mid_tier_full ! 1)\<lparr>pool_ptrs := None\<rparr>)))\<rparr>])) \<and>
   wcnss_prealloc_get first_fails True (Some mid_tier_lost) 8192 =
     Inr (0, Some (after_failures 8192 1 mid_tier_lost)) \<and>
   wcnss_prealloc_get none_gives True (Some two_tiers) 8192 =
     Inr (0, Some (after_failures 8192 (length two_tiers) two_tiers)) \<and>
   after_failures 8192 1 mid_tier_lost ! 0 = asked 0 (mid_tier_lost ! 0) \<and>
   after_failures 8192 1 mid_tier_lost ! 2 = mid_tier_lost ! 2"
proof -
  have t1: "0 < length two_tiers" "size_f (hd two_tiers) \<le> 8192" "eligible 8192 (two_tiers ! 0)"
    "\<forall>n<0. \<not> eligible 8192 (two_tiers ! n)" "pool_ptrs (two_tiers ! 0) \<noteq> None"
    by (simp_all add: two_tiers_def ready_tier_def eligible_def)
  have t2: "0 < length mid_tier_full" "size_f (hd mid_tier_full) \<le> 8192" "eligible 8192 (mid_tier_full ! 0)"
    "\<forall>n<0. \<not> eligible 8192 (mid_tier_full ! n)" "pool_ptrs (mid_tier_full ! 0) \<noteq> None"
    by (simp_all add: mid_tier_full_def ready_tier_def eligible_def)
  have t3: "0 < length mid_tier_lost" "size_f (hd mid_tier_lost) \<le> 8192" "eligible 8192 (mid_tier_lost ! 0)"
    "\<forall>n<0. \<not> eligible 8192 (mid_tier_lost ! n)" "pool_ptrs (mid_tier_lost ! 0) \<noteq> None"
    by (simp_all add: mid_tier_lost_def ready_tier_def eligible_def)
  have f0: "first_fails 0 = 0" by (simp add: first_fails_def)
  have n0: "none_gives 0 = 0" by (simp add: none_gives_def)
  note w1 = acquire_goes_on_to_larger_tiers[where i=0 and ps=two_tiers and sz=8192
      and alloc=first_fails and krealloc_ok=True, OF t1 f0]
  note w2 = acquire_goes_on_to_larger_tiers[where i=0 and ps=mid_tier_full and sz=8192
      and alloc=first_fails and krealloc_ok=False, OF t2 f0]
  note w3 = acquire_goes_on_to_larger_tiers[where i=0 and ps=mid_tier_lost and sz=8192
      and alloc=first_fails and krealloc_ok=True, OF t3 f0]
  note w4 = acquire_goes_on_to_larger_tiers[where i=0 and ps=two_tiers and sz=8192
      and alloc=none_gives and krealloc_ok=True, OF t1 n0]
  have between: "\<forall>n. 0 < n \<and> n < 1 \<and> eligible 8192 (ps ! n) \<longrightarrow>
      first_fails n = 0 \<and> pool_ptrs (ps ! n) \<noteq> None" for ps :: "cnss_pool list"
    by simp
  have a1: "0 < (1::nat) \<and> 1 < length two_tiers \<and> eligible 8192 (two_tiers ! 1) \<and>
      pool_ptrs (two_tiers ! 1) \<noteq> None \<and> first_fails 1 \<noteq> 0 \<and>
      (\<forall>n. 0 < n \<and> n < 1 \<and> eligible 8192 (two_tiers ! n) \<longrightarrow>
          first_fails n = 0 \<and> pool_ptrs (two_tiers ! n) \<noteq> None) \<and>
      wcnss_find_pool_table_slot True (two_tiers ! 1) (first_fails 1) =
        Inr (0, (two_tiers ! 1)\<lparr>pool_ptrs := Some [4096, 0]\<rparr>)"
  proof (intro conjI)
    show "wcnss_find_pool_table_slot True (two_tiers ! 1) (first_fails 1) =
        Inr (0, (two_tiers ! 1)\<lparr>pool_ptrs := Some [4096, 0]\<rparr>)"
      by (simp add: run_loops two_tiers_def ready_tier_def first_fails_def)
  qed (simp_all add: two_tiers_def ready_tier_def eligible_def first_fails_def)
  have a2: "0 < (1::nat) \<and> 1 < length mid_tier_full \<and> eligible 8192 (mid_tier_full ! 1) \<and>
      pool_ptrs (mid_tier_full ! 1) \<noteq> None \<and> first_fails 1 \<noteq> 0 \<and>
      (\<forall>n. 0 < n \<and> n < 1 \<and> eligible 8192 (mid_tier_full ! n) \<longrightarrow>
          first_fails n = 0 \<and> pool_ptrs (mid_tier_full ! n) \<noteq> None) \<and>
      wcnss_find_pool_table_slot False (mid_tier_full ! 1) (first_fails 1) =
        Inr (- 1, (mid_tier_full ! 1)\<lparr>pool_ptrs := None\<rparr>)"
  proof (intro conjI)
    show "wcnss_find_pool_table_slot False (mid_tier_full ! 1) (first_fails 1) =
        Inr (- 1, (mid_tier_full ! 1)\<lparr>pool_ptrs := None\<rparr>)"
      by (simp add: run_loops mid_tier_full_def ready_tier_def first_fails_def)
  qed (simp_all add: mid_tier_full_def ready_tier_def eligible_def first_fails_def)
  have a3: "0 < (1::nat) \<and> 1 < length mid_tier_lost \<and> eligible 8192 (mid_tier_lost ! 1) \<and>
      pool_ptrs (mid_tier_lost ! 1) = None \<and>
      (\<forall>n. 0 < n \<and> n < 1 \<and> eligible 8192 (mid_tier_lost ! n) \<longrightarrow>
          first_fails n = 0 \<and> pool_ptrs (mid_tier_lost ! n) \<noteq> None)"
    by (intro conjI) (simp_all add: mid_tier_lost_def ready_tier_def eligible_def)
  have a4: "\<forall>n. 0 < n \<and> n < length two_tiers \<and> eligible 8192 (two_tiers ! n) \<longrightarrow>
      none_gives n = 0 \<and> pool_ptrs (two_tiers ! n) \<noteq> None"
    by (simp add: none_gives_def two_tiers_def ready_tier_def nth_Cons')
  have a5: "0 < (1::nat) \<and> 1 \<le> length mid_tier_lost" by (simp add: mid_tier_lost_def)
  have a6: "1 \<le> (2::nat) \<and> 2 < length mid_tier_lost" by (simp add: mid_tier_lost_def)
  have m1: "\<not> (0::int) < 0" by simp
  have m2: "(- 1::int) < 0" by simp
  note c1 = w1[THEN conjunct1, THEN spec, THEN spec, THEN spec, THEN mp, OF a1,
      THEN conjunct1, THEN mp, OF m1]
  note c2 = w2[THEN conjunct1, THEN spec, THEN spec, THEN spec, THEN mp, OF a2,
      THEN conjunct2, THEN mp, OF m2]
  note c3 = w3[THEN conjunct2, THEN conjunct1, THEN spec, THEN mp, OF a3]
  note c4 = w4[THEN conjunct2, THEN conjunct2, THEN conjunct1, THEN mp, OF a4]
  note c5 = w3[THEN conjunct2, THEN conjunct2, THEN conjunct2, THEN spec, THEN mp, OF a5]
  note c6 = c5[THEN conjunct2, THEN spec, THEN mp, OF a6]
  show ?thesis
    by (intro conjI c1[THEN conjunct1] c1[THEN conjunct2] c2 c3 c4 c5[THEN conjunct1] c6)
qed

section \<open>Failure of the tracking-table insert\<close>

lemma on_loan_give_back:
  "a \<noteq> 0 \<Longrightarrow> on_loan (mempool_free a (mempool_alloc h a)) = on_loan h"
  by (simp add: mempool_free_def mempool_alloc_def)

text \<open>
  C2.  In an acquire call whose tier loop arrives at tier \<open>j\<close>, where the backing
  allocator gives a block (\<open>alloc j \<noteq> 0\<close>) and the insert into the tracking table then
  fails (\<^verbatim>\<open>wcnss_find_pool_table_slot\<close> returns a negative value), the block is given
  back to the allocator of tier \<open>j\<close> by a \<^verbatim>\<open>mempool_free\<close> that follows the
  \<^verbatim>\<open>mempool_alloc\<close>, so that tier \<open>j\<close> has the same blocks on loan as before the call,
  and acquire returns null.
\<close>

theorem failed_insert_gives_block_back:
  assumes "j < length ps" and "size_f (hd ps) \<le> sz"
    and "eligible sz (ps ! j)" and "pool_ptrs (ps ! j) \<noteq> None"
    and "\<forall>n<j. eligible sz (ps ! n) \<longrightarrow> alloc n = 0 \<and> pool_ptrs (ps ! n) \<noteq> None"
    and "alloc j \<noteq> 0"
    and "wcnss_find_pool_table_slot krealloc_ok (ps ! j) (alloc j) = Inr (ret, p2)"
    and "ret < 0"
  shows "\<exists>ps'. wcnss_prealloc_get alloc krealloc_ok (Some ps) sz = Inr (0, Some ps') \<and>
           length ps' = length ps \<and>
           mp (ps' ! j) = map_option (\<lambda>h. mempool_free (alloc j) (mempool_alloc h (alloc j))) (mp (ps ! j)) \<and>
           loaned (ps' ! j) = loaned (ps ! j)"
proof -
  from get_loop_hit_at[OF assms(1,3,4,5,6,7)]
  obtain ps1 where ps1:
    "get_loop alloc krealloc_ok sz ps 0 = Inr (ps1[j := asked (alloc j) p2], j, alloc j, ret)"
    "length ps1 = length ps"
    by auto
  from assms(1) have ne: "ps \<noteq> []" by auto
  let ?q = "asked (alloc j) p2"
  let ?ps' = "(ps1[j := ?q])[j := ?q\<lparr>mp := map_option (mempool_free (alloc j)) (mp ?q)\<rparr>]"
  from ps1 assms(1,8) have g: "wcnss_prealloc_get alloc krealloc_ok (Some ps) sz = Inr (0, Some ?ps')"
    by (simp add: get_unfold[OF ne assms(2)])
  from find_slot_result[OF assms(7)] have m: "mp p2 = mp (ps ! j)" by simp
  from ps1(2) assms(1) have "?ps' ! j = ?q\<lparr>mp := map_option (mempool_free (alloc j)) (mp ?q)\<rparr>"
    by simp
  with m have mpj: "mp (?ps' ! j) =
      map_option (\<lambda>h. mempool_free (alloc j) (mempool_alloc h (alloc j))) (mp (ps ! j))"
    by (simp add: option.map_comp comp_def)
  with assms(6) have "loaned (?ps' ! j) = loaned (ps ! j)"
    by (cases "mp (ps ! j)") (simp_all add: loaned_def on_loan_give_back)
  with g mpj ps1(2) show ?thesis
    by (intro exI[of _ ?ps']) simp
qed

theorem failed_insert_gives_block_back_witness:
  "\<exists>ps'. wcnss_prealloc_get (gives 9) False (Some [ready_tier 8192 ''cnss-pool-8k'' [5, 7]]) 8192 =
            Inr (0, Some ps') \<and>
          length ps' = length [ready_tier 8192 ''cnss-pool-8k'' [5, 7]] \<and>
          mp (ps' ! 0) = map_option (\<lambda>h. mempool_free (gives 9 0) (mempool_alloc h (gives 9 0)))
                           (mp ([ready_tier 8192 ''cnss-pool-8k'' [5, 7]] ! 0)) \<and>
          loaned (ps' ! 0) = loaned ([ready_tier 8192 ''cnss-pool-8k'' [5, 7]] ! 0)"
proof -
  let ?ps = "[ready_tier 8192 ''cnss-pool-8k'' [5, 7]]"
  have h1: "0 < length ?ps" by simp
  have h2: "size_f (hd ?ps) \<le> 8192" by (simp add: ready_tier_def)
  have h3: "eligible 8192 (?ps ! 0)" by (simp add: eligible_def ready_tier_def)
  have h4: "pool_ptrs (?ps ! 0) \<noteq> None" by (simp add: ready_tier_def)
  have h5: "\<forall>n<0. eligible 8192 (?ps ! n) \<longrightarrow> gives 9 n = 0 \<and> pool_ptrs (?ps ! n) \<noteq> None" by simp
  have h6: "gives 9 0 \<noteq> 0" by (simp add: gives_def)
  have h7: "wcnss_find_pool_table_slot False (?ps ! 0) (gives 9 0) =
      Inr (- 1, (ready_tier 8192 ''cnss-pool-8k'' [5, 7])\<lparr>pool_ptrs := None\<rparr>)"
    by (simp add: run_loops ready_tier_def gives_def)
  have h8: "- 1 < (0::int)" by simp
  from failed_insert_gives_block_back[where j=0 and ps="?ps" and sz=8192 and alloc="gives 9"
      and krealloc_ok=False, OF h1 h2 h3 h4 h5 h6 h7 h8]
  show ?thesis .
qed
section \<open>Where an acquired block is recorded\<close>

text \<open>
  What acquire does with a block it returns, whatever the state and the answers of the
  allocators: the block is the answer of the allocator of a tier that acquire takes for
  the size, it is in the table of that tier when the call returns, the block size of
  that tier is at least the size asked for, and the slots of every other tier are as
  they were.
\<close>

lemma acquire_records:
  assumes "wcnss_prealloc_get alloc krealloc_ok (Some ps) sz = Inr (mem, s')" and "mem \<noteq> 0"
  shows "\<exists>ps' i. s' = Some ps' \<and> length ps' = length ps \<and> i < length ps \<and>
           mem = alloc i \<and> eligible sz (ps ! i) \<and>
           recorded mem (ps' ! i) \<and> sz \<le> size_f (ps' ! i) \<and>
           (\<forall>n<length ps. n \<noteq> i \<longrightarrow> slots (ps' ! n) = slots (ps ! n))"
proof -
  from assms(1,2) have ne: "ps \<noteq> []"
    by (auto simp: wcnss_prealloc_get_def cnss_pool_alloc_threshold_def)
  from assms(1,2) ne have th: "size_f (hd ps) \<le> sz"
    by (cases ps) (auto simp: wcnss_prealloc_get_def cnss_pool_alloc_threshold_def split: if_splits)
  from assms(1,2) obtain ps' i ret where
    loop: "get_loop alloc krealloc_ok sz ps 0 = Inr (ps', i, mem, ret)" and ret: "\<not> ret < 0"
    and s': "s' = Some ps'"
    by (auto simp: get_unfold[OF ne th] split: sum.splits if_splits)
  from get_loop_outcome[OF loop] assms(2) have
    len: "length ps' = length ps"
    and szs: "\<forall>n<length ps. size_f (ps' ! n) = size_f (ps ! n) \<and> (mp (ps' ! n) = None) = (mp (ps ! n) = None)"
    and tbs: "\<forall>n<length ps. n \<noteq> i \<longrightarrow>
         pool_ptrs (ps' ! n) = pool_ptrs (ps ! n) \<and> table_capacity (ps' ! n) = table_capacity (ps ! n)"
    and i: "i < length ps" "mem = alloc i" "eligible sz (ps ! i)"
    and ins: "wcnss_find_pool_table_slot krealloc_ok (asked mem (ps ! i)) mem = Inr (ret, ps' ! i)"
    by auto
  from find_slot_result[OF ins] ret have rec: "recorded mem (ps' ! i)"
    by (simp add: recorded_def)
  from i szs have big: "sz \<le> size_f (ps' ! i)"
    by (simp add: eligible_def)
  have others: "\<forall>n<length ps. n \<noteq> i \<longrightarrow> slots (ps' ! n) = slots (ps ! n)"
  proof (intro allI impI)
    fix n assume n: "n < length ps" "n \<noteq> i"
    with tbs have "pool_ptrs (ps' ! n) = pool_ptrs (ps ! n)"
      "table_capacity (ps' ! n) = table_capacity (ps ! n)" by auto
    then show "slots (ps' ! n) = slots (ps ! n)" by (simp add: slots_def split: option.splits)
  qed
  from s' len i rec big others show ?thesis by blast
qed

text \<open>
  C3.  The address that acquire returns is to be recorded in the table of exactly one
  tier, and in no table before the call.  \<^verbatim>\<open>cnss_pool_init\<close> takes the table of a tier from
  \<^verbatim>\<open>kmalloc\<close> and does not clear it, while the insert takes a slot that holds NULL for an
  empty one and the audit takes every other slot for a block that was not freed.  With
  a kernel that leaves the word 4096 in the first slot of the table of the 8k tier,
  initialisation of the tiers 8k and 16k gives \<open>stale_tiers\<close>: no tier has a block on
  loan, and 4096 stands in the table of the 8k tier.  A request of 10000 bytes is
  then served by the 16k tier, whose allocator hands out the block at 4096, a block
  that no tier has on loan.  Acquire returns 4096, which was in the table of the 8k
  tier before the call, and is in the tables of both tiers after it.  The release of
  4096 that follows finds it in the table of the 8k tier, gives the block to the
  allocator of the 8k tier, and leaves it recorded in the 16k tier.
\<close>

theorem stale_slot_taken_for_record:
  "cnss_pool_init kernel_stale (Some profileA) = Inr (Some stale_tiers) \<and>
   loaned (stale_tiers ! 0) = [] \<and> loaned (stale_tiers ! 1) = [] \<and>
   recorded 4096 (stale_tiers ! 0) \<and>
   wcnss_prealloc_get (gives 4096) True (Some stale_tiers) 10000 =
     Inr (4096, Some [stale_tiers ! 0,
                      (asked 4096 (stale_tiers ! 1))\<lparr>pool_ptrs := Some [4096, 0]\<rparr>]) \<and>
   recorded 4096 ((asked 4096 (stale_tiers ! 1))\<lparr>pool_ptrs := Some [4096, 0]\<rparr>) \<and>
   wcnss_prealloc_put
       (Some [stale_tiers ! 0, (asked 4096 (stale_tiers ! 1))\<lparr>pool_ptrs := Some [4096, 0]\<rparr>]) 4096 =
     Inr (1, Some [(stale_tiers ! 0)\<lparr>mp := Some [MpFree 4096], pool_ptrs := Some [0, 0]\<rparr>,
                   (asked 4096 (stale_tiers ! 1))\<lparr>pool_ptrs := Some [4096, 0]\<rparr>])"
proof (intro conjI)
  show "cnss_pool_init kernel_stale (Some profileA) = Inr (Some stale_tiers)"
    by (simp add: run_loops profileA_def mk_pool_def kernel_stale_def stale_tiers_def ready_tier_def
        upt_rec)
  show "loaned (stale_tiers ! 0) = []" "loaned (stale_tiers ! 1) = []"
    by (simp_all add: stale_tiers_def ready_tier_def loaned_def)
  show "recorded 4096 (stale_tiers ! 0)"
    by (simp add: stale_tiers_def ready_tier_def recorded_def slots_def)
  show "wcnss_prealloc_get (gives 4096) True (Some stale_tiers) 10000 =
     Inr (4096, Some [stale_tiers ! 0,
                      (asked 4096 (stale_tiers ! 1))\<lparr>pool_ptrs := Some [4096, 0]\<rparr>])"
    by (simp add: run_loops stale_tiers_def ready_tier_def gives_def asked_def)
  show "recorded 4096 ((asked 4096 (stale_tiers ! 1))\<lparr>pool_ptrs := Some [4096, 0]\<rparr>)"
    by (simp add: stale_tiers_def ready_tier_def recorded_def slots_def asked_def)
  show "wcnss_prealloc_put
       (Some [stale_tiers ! 0, (asked 4096 (stale_tiers ! 1))\<lparr>pool_ptrs := Some [4096, 0]\<rparr>]) 4096 =
     Inr (1, Some [(stale_tiers ! 0)\<lparr>mp := Some [MpFree 4096], pool_ptrs := Some [0, 0]\<rparr>,
                   (asked 4096 (stale_tiers ! 1))\<lparr>pool_ptrs := Some [4096, 0]\<rparr>])"
    by (simp add: run_loops stale_tiers_def ready_tier_def asked_def Let_def)
qed

section \<open>Release, once and twice\<close>

text \<open>
  C4 as stated does not hold.  After the table of the 8k tier has been lost to a failed
  growth, the block at 5 is recorded in the table of the 16k tier and in no other, yet
  the first release of it returns 0: the loop stops at the 8k tier, whose table
  pointer is NULL.
\<close>

theorem release_of_recorded_counterexample:
  "wcnss_prealloc_get (gives 11) False (Some small_tier_full) 8192 = Inr (0, Some small_tier_lost) \<and>
   recorded 5 (small_tier_lost ! 1) \<and> \<not> recorded 5 (small_tier_lost ! 0) \<and>
   wcnss_prealloc_put (Some small_tier_lost) 5 = Inr (0, Some small_tier_lost)"
proof -
  have "wcnss_prealloc_get (gives 11) False (Some small_tier_full) 8192 = Inr (0, Some small_tier_lost)"
    by (simp add: run_loops small_tier_full_def small_tier_lost_def ready_tier_def gives_def)
  moreover have "recorded 5 (small_tier_lost ! 1)"
    by (simp add: recorded_def slots_def small_tier_lost_def ready_tier_def)
  moreover have "\<not> recorded 5 (small_tier_lost ! 0)"
    by (simp add: recorded_def slots_def small_tier_lost_def ready_tier_def)
  moreover have "wcnss_prealloc_put (Some small_tier_lost) 5 = Inr (0, Some small_tier_lost)"
    by (simp add: run_loops small_tier_lost_def ready_tier_def)
  ultimately show ?thesis by blast
qed

text \<open>
  C4, amended.  Let the address \<open>a\<close> occupy exactly one slot of the table of tier \<open>i\<close>
  and no slot of any other tier's table, let tier \<open>i\<close> have its backing allocator, and
  let no tier before \<open>i\<close> that has its allocator have lost its table (every table that
  is present has \<open>table_capacity\<close> slots).  Then the first release of \<open>a\<close> returns 1,
  clears the slot of \<open>a\<close> in the table of tier \<open>i\<close>, gives \<open>a\<close> to the allocator of
  tier \<open>i\<close> and changes no other tier; the release of \<open>a\<close> that follows returns 0 and
  leaves the state as it is.
\<close>

theorem release_once_then_failure:
  assumes "a \<noteq> 0" and "i < length ps" and "mp (ps ! i) \<noteq> None"
    and "count_list (slots (ps ! i)) a = 1"
    and "\<forall>n<length ps. n \<noteq> i \<longrightarrow> \<not> recorded a (ps ! n)"
    and "\<forall>n<length ps. pool_ptrs (ps ! n) \<noteq> None \<longrightarrow> table_present (ps ! n)"
    and "\<forall>n<i. mp (ps ! n) \<noteq> None \<longrightarrow> pool_ptrs (ps ! n) \<noteq> None"
  shows "\<exists>ps1 k. wcnss_prealloc_put (Some ps) a = Inr (1, Some ps1) \<and> length ps1 = length ps \<and>
           k < length (slots (ps ! i)) \<and> slots (ps ! i) ! k = a \<and>
           slots (ps1 ! i) = (slots (ps ! i))[k := 0] \<and> \<not> recorded a (ps1 ! i) \<and>
           mp (ps1 ! i) = map_option (mempool_free a) (mp (ps ! i)) \<and>
           (\<forall>n<length ps. n \<noteq> i \<longrightarrow> ps1 ! n = ps ! n) \<and>
           wcnss_prealloc_put (Some ps1) a = Inr (0, Some ps1)"
proof -
  from assms(4) have ain: "a \<in> set (slots (ps ! i))"
    using count_list_0_iff[of "slots (ps ! i)" a] by auto
  then obtain t where t: "pool_ptrs (ps ! i) = Some t"
    by (cases "pool_ptrs (ps ! i)") (auto simp: slots_def)
  with assms(2,6) have len: "length t = table_capacity (ps ! i)"
    by (auto simp: table_present_def)
  with t have sl: "slots (ps ! i) = t" by (simp add: slots_def)
  have before: "\<forall>n. 0 \<le> n \<and> n < i \<longrightarrow> passes a (ps ! n)"
  proof (intro allI impI)
    fix n assume n: "0 \<le> n \<and> n < i"
    with assms(2) have nl: "n < length ps" by simp
    show "passes a (ps ! n)"
    proof (cases "mp (ps ! n) = None")
      case True
      then show ?thesis by (simp add: passes_def)
    next
      case False
      with assms(7) n have "pool_ptrs (ps ! n) \<noteq> None" by simp
      with assms(6) nl have "table_present (ps ! n)" by simp
      moreover from assms(5) nl n have "a \<notin> set (slots (ps ! n))" by (simp add: recorded_def)
      ultimately show ?thesis by (simp add: passes_def)
    qed
  qed
  from assms(2) have "put_loop a ps 0 = put_loop a ps i"
    by (intro put_loop_pass before) simp_all
  moreover from put_loop_found[OF assms(2,3) t _ ain] len obtain k where
    k: "k < table_capacity (ps ! i)" "t ! k = a"
    and found: "put_loop a ps i =
       Inr (1, ps[i := (ps ! i)\<lparr>pool_ptrs := Some (t[k := 0]),
                               mp := map_option (mempool_free a) (mp (ps ! i))\<rparr>])"
    by auto
  define q where "q = (ps ! i)\<lparr>pool_ptrs := Some (t[k := 0]),
                               mp := map_option (mempool_free a) (mp (ps ! i))\<rparr>"
  define ps1 where "ps1 = ps[i := q]"
  from calculation found have first: "wcnss_prealloc_put (Some ps) a = Inr (1, Some ps1)"
    by (simp add: put_unfold[OF assms(1)] ps1_def q_def)
  have l1: "length ps1 = length ps" by (simp add: ps1_def)
  from assms(2) have q: "ps1 ! i = q" by (simp add: ps1_def)
  from len have slq: "slots q = t[k := 0]" by (simp add: q_def slots_def)
  from k len assms(1,4) sl have "count_list (t[k := 0]) a = 0"
    by (simp add: count_list_update_first)
  then have gone: "a \<notin> set (slots q)"
    using count_list_0_iff[of "t[k := 0]" a] slq by simp
  have tpq: "table_present q" using len by (simp add: q_def table_present_def)
  have oth: "\<forall>n<length ps. n \<noteq> i \<longrightarrow> ps1 ! n = ps ! n" by (simp add: ps1_def)
  have "\<forall>n<length ps1. 0 \<le> n \<longrightarrow> passes a (ps1 ! n) \<or> pool_ptrs (ps1 ! n) = None"
  proof (intro allI impI)
    fix n assume n: "n < length ps1"
    show "passes a (ps1 ! n) \<or> pool_ptrs (ps1 ! n) = None"
    proof (cases "n = i")
      case True
      with q gone tpq show ?thesis by (simp add: passes_def)
    next
      case False
      with n l1 oth have e: "ps1 ! n = ps ! n" by simp
      from assms(5,6) n l1 False have "pool_ptrs (ps ! n) \<noteq> None \<longrightarrow>
          table_present (ps ! n) \<and> a \<notin> set (slots (ps ! n))"
        by (simp add: recorded_def)
      with e show ?thesis by (auto simp: passes_def)
    qed
  qed
  then have "put_loop a ps1 0 = Inr (0, ps1)" by (rule put_loop_not_found)
  then have second: "wcnss_prealloc_put (Some ps1) a = Inr (0, Some ps1)"
    by (simp add: put_unfold[OF assms(1)])
  from k len sl have kk: "k < length (slots (ps ! i))" "slots (ps ! i) ! k = a" by simp_all
  from q slq sl have upd: "slots (ps1 ! i) = (slots (ps ! i))[k := 0]" by simp
  from q gone have nr: "\<not> recorded a (ps1 ! i)" by (simp add: recorded_def)
  from q have mq: "mp (ps1 ! i) = map_option (mempool_free a) (mp (ps ! i))" by (simp add: q_def)
  from first l1 kk upd nr mq oth second show ?thesis by blast
qed

theorem release_once_then_failure_witness:
  "\<exists>ps1 k. wcnss_prealloc_put (Some large_tier_full) 5 = Inr (1, Some ps1) \<and>
      length ps1 = length large_tier_full \<and>
      k < length (slots (large_tier_full ! 0)) \<and> slots (large_tier_full ! 0) ! k = 5 \<and>
      slots (ps1 ! 0) = (slots (large_tier_full ! 0))[k := 0] \<and> \<not> recorded 5 (ps1 ! 0) \<and>
      mp (ps1 ! 0) = map_option (mempool_free 5) (mp (large_tier_full ! 0)) \<and>
      (\<forall>n<length large_tier_full. n \<noteq> 0 \<longrightarrow> ps1 ! n = large_tier_full ! n) \<and>
      wcnss_prealloc_put (Some ps1) 5 = Inr (0, Some ps1)"
proof -
  have h1: "(5::nat) \<noteq> 0" by simp
  have h2: "0 < length large_tier_full" by (simp add: large_tier_full_def)
  have h3: "mp (large_tier_full ! 0) \<noteq> None" by (simp add: large_tier_full_def ready_tier_def)
  have h4: "count_list (slots (large_tier_full ! 0)) 5 = 1"
    by (simp add: large_tier_full_def ready_tier_def slots_def)
  have h5: "\<forall>n<length large_tier_full. n \<noteq> 0 \<longrightarrow> \<not> recorded 5 (large_tier_full ! n)"
    by (auto simp: large_tier_full_def ready_tier_def recorded_def slots_def nth_Cons')
  have h6: "\<forall>n<length large_tier_full. pool_ptrs (large_tier_full ! n) \<noteq> None \<longrightarrow>
      table_present (large_tier_full ! n)"
    by (auto simp: large_tier_full_def ready_tier_def table_present_def nth_Cons')
  have h7: "\<forall>n<0. mp (large_tier_full ! n) \<noteq> None \<longrightarrow> pool_ptrs (large_tier_full ! n) \<noteq> None"
    by simp
  from release_once_then_failure[OF h1 h2 h3 h4 h5 h6 h7] show ?thesis .
qed

section \<open>A tier whose table has been lost\<close>

lemma get_loop_skips:
  assumes "k \<le> i" "i \<le> length ps" "\<forall>n. k \<le> n \<and> n < i \<longrightarrow> \<not> eligible sz (ps ! n)"
  shows "get_loop alloc ok sz ps k = get_loop alloc ok sz ps i"
  using assms
proof (induction i rule: dec_induct)
  case base
  show ?case by simp
next
  case (step i)
  then have "get_loop alloc ok sz ps k = get_loop alloc ok sz ps i" by auto
  also from step have "get_loop alloc ok sz ps i = get_loop alloc ok sz ps (Suc i)"
    by (intro get_loop_skip) auto
  finally show ?case .
qed

text \<open>
  C6 as stated does not hold in its last part.  The 8k tier holds the block at 5 and the
  table of the 16k tier is full; a request of 10000 bytes gets the block at 11 from the
  16k tier, the growth of its table fails and its table pointer is left NULL.  The
  release of the block at 5 that follows does not fail: the loop finds it in the 8k
  tier, before it arrives at the tier without table, and returns 1.
\<close>

theorem release_before_lost_tier_counterexample:
  "wcnss_prealloc_get (gives 11) False (Some large_tier_full) 10000 = Inr (0, Some large_tier_lost) \<and>
   mp (large_tier_lost ! 1) \<noteq> None \<and> pool_ptrs (large_tier_lost ! 1) = None \<and>
   wcnss_prealloc_put (Some large_tier_lost) 5 =
     Inr (1, Some (large_tier_lost[0 := (large_tier_lost ! 0)\<lparr>mp := Some [MpFree 5], pool_ptrs := Some [0, 0]\<rparr>]))"
proof -
  have "wcnss_prealloc_get (gives 11) False (Some large_tier_full) 10000 = Inr (0, Some large_tier_lost)"
    by (simp add: run_loops large_tier_full_def large_tier_lost_def ready_tier_def gives_def)
  moreover have "mp (large_tier_lost ! 1) \<noteq> None"
    by (simp add: large_tier_lost_def ready_tier_def)
  moreover have "pool_ptrs (large_tier_lost ! 1) = None"
    by (simp add: large_tier_lost_def ready_tier_def)
  moreover have "wcnss_prealloc_put (Some large_tier_lost) 5 =
     Inr (1, Some (large_tier_lost[0 := (large_tier_lost ! 0)\<lparr>mp := Some [MpFree 5], pool_ptrs := Some [0, 0]\<rparr>]))"
    by (simp add: run_loops large_tier_lost_def ready_tier_def)
  ultimately show ?thesis by blast
qed

text \<open>
  C6, amended.  When the growth of a full tracking table fails, the insert returns
  \<open>-EPERM\<close> and leaves the tier's table pointer NULL, so that no address is recorded
  for the tier any more.  Let tier \<open>i\<close> of a state have its allocator and a NULL table
  pointer.  Then every acquire whose size selects tier \<open>i\<close> (its block size suffices
  and no tier before it is taken) returns null and leaves the state as it is, so no
  larger tier is asked; every release of an address that is not recorded in a tier
  before \<open>i\<close> returns 0 and leaves the state as it is, whatever the tables of the
  tiers after \<open>i\<close> hold; and tier \<open>i\<close> is in the same condition after every acquire
  and every release.
\<close>

theorem lost_table_blocks_tier:
  assumes "i < length ps" and "mp (ps ! i) \<noteq> None" and "pool_ptrs (ps ! i) = None"
  shows "(\<forall>p mem. table_present p \<and> 0 \<notin> set (slots p) \<longrightarrow>
            wcnss_find_pool_table_slot False p mem = Inr (- EPERM, p\<lparr>pool_ptrs := None\<rparr>) \<and>
            slots (p\<lparr>pool_ptrs := None\<rparr>) = []) \<and>
         (\<forall>alloc ok sz. sz \<le> size_f (ps ! i) \<and> (\<forall>n<i. \<not> eligible sz (ps ! n)) \<longrightarrow>
            wcnss_prealloc_get alloc ok (Some ps) sz = Inr (0, Some ps)) \<and>
         (\<forall>a. (\<forall>n<i. \<not> recorded a (ps ! n)) \<and>
              (\<forall>n<i. pool_ptrs (ps ! n) \<noteq> None \<longrightarrow> table_present (ps ! n)) \<longrightarrow>
            wcnss_prealloc_put (Some ps) a = Inr (0, Some ps)) \<and>
         (\<forall>alloc ok sz r s'. wcnss_prealloc_get alloc ok (Some ps) sz = Inr (r, s') \<longrightarrow>
            (\<exists>ps'. s' = Some ps' \<and> length ps' = length ps \<and>
                   mp (ps' ! i) \<noteq> None \<and> pool_ptrs (ps' ! i) = None)) \<and>
         (\<forall>a r s'. wcnss_prealloc_put (Some ps) a = Inr (r, s') \<longrightarrow>
            (\<exists>ps'. s' = Some ps' \<and> length ps' = length ps \<and>
                   mp (ps' ! i) \<noteq> None \<and> pool_ptrs (ps' ! i) = None))"
proof (intro conjI allI impI)
  fix p :: cnss_pool and mem
  assume a: "table_present p \<and> 0 \<notin> set (slots p)"
  then obtain t where t: "pool_ptrs p = Some t" "length t = table_capacity p"
    by (auto simp: table_present_def split: option.splits)
  with a have "0 \<notin> set t" by (simp add: slots_def)
  from find_slot_full[OF t this, of False mem]
  show "wcnss_find_pool_table_slot False p mem = Inr (- EPERM, p\<lparr>pool_ptrs := None\<rparr>)" by simp
  show "slots (p\<lparr>pool_ptrs := None\<rparr>) = []" by (simp add: slots_def)
next
  fix alloc ok sz
  assume a: "sz \<le> size_f (ps ! i) \<and> (\<forall>n<i. \<not> eligible sz (ps ! n))"
  from assms(1) have ne: "ps \<noteq> []" by auto
  show "wcnss_prealloc_get alloc ok (Some ps) sz = Inr (0, Some ps)"
  proof (cases "size_f (hd ps) \<le> sz")
    case False
    with ne show ?thesis
      by (cases ps) (simp_all add: wcnss_prealloc_get_def cnss_pool_alloc_threshold_def)
  next
    case True
    from a assms(1) have "get_loop alloc ok sz ps 0 = get_loop alloc ok sz ps i"
      by (intro get_loop_skips) auto
    also from a assms have "get_loop alloc ok sz ps i = Inr (ps, i, 0, 0)"
      by (intro get_loop_no_table) (auto simp: eligible_def)
    finally show ?thesis by (simp add: get_unfold[OF ne True])
  qed
next
  fix a
  assume a: "(\<forall>n<i. \<not> recorded a (ps ! n)) \<and>
              (\<forall>n<i. pool_ptrs (ps ! n) \<noteq> None \<longrightarrow> table_present (ps ! n))"
  show "wcnss_prealloc_put (Some ps) a = Inr (0, Some ps)"
  proof (cases "a = 0")
    case True
    then show ?thesis by (simp add: wcnss_prealloc_put_def)
  next
    case False
    from a have "\<forall>n<i. passes a (ps ! n) \<or> pool_ptrs (ps ! n) = None"
      by (auto simp: passes_def recorded_def)
    from put_loop_stops[OF assms this] False show ?thesis
      by (simp add: put_unfold)
  qed
next
  fix alloc ok sz r s'
  assume "wcnss_prealloc_get alloc ok (Some ps) sz = Inr (r, s')"
  from get_keeps_lost[OF this assms]
  show "\<exists>ps'. s' = Some ps' \<and> length ps' = length ps \<and>
                   mp (ps' ! i) \<noteq> None \<and> pool_ptrs (ps' ! i) = None" .
next
  fix a r s'
  assume "wcnss_prealloc_put (Some ps) a = Inr (r, s')"
  from put_keeps_lost[OF this assms]
  show "\<exists>ps'. s' = Some ps' \<and> length ps' = length ps \<and>
                   mp (ps' ! i) \<noteq> None \<and> pool_ptrs (ps' ! i) = None" .
qed

theorem lost_table_blocks_tier_witness:
  "wcnss_find_pool_table_slot False (ready_tier 8192 ''cnss-pool-8k'' [7, 9]) 11 =
     Inr (- EPERM, (ready_tier 8192 ''cnss-pool-8k'' [7, 9])\<lparr>pool_ptrs := None\<rparr>) \<and>
   wcnss_prealloc_get (gives 11) True (Some small_tier_lost) 8192 = Inr (0, Some small_tier_lost) \<and>
   recorded 5 (small_tier_lost ! 1) \<and>
   wcnss_prealloc_put (Some small_tier_lost) 5 = Inr (0, Some small_tier_lost) \<and>
   (\<exists>ps'. Some (small_tier_lost[1 := (asked 11 (small_tier_lost ! 1))\<lparr>pool_ptrs := Some [5, 11]\<rparr>]) = Some ps' \<and>
          length ps' = length small_tier_lost \<and> mp (ps' ! 0) \<noteq> None \<and> pool_ptrs (ps' ! 0) = None)"
proof -
  have h1: "0 < length small_tier_lost" by (simp add: small_tier_lost_def)
  have h2: "mp (small_tier_lost ! 0) \<noteq> None" by (simp add: small_tier_lost_def ready_tier_def)
  have h3: "pool_ptrs (small_tier_lost ! 0) = None" by (simp add: small_tier_lost_def ready_tier_def)
  note inst = lost_table_blocks_tier[OF h1 h2 h3]
  have a: "table_present (ready_tier 8192 ''cnss-pool-8k'' [7, 9]) \<and>
      0 \<notin> set (slots (ready_tier 8192 ''cnss-pool-8k'' [7, 9]))"
    by (simp add: table_present_def slots_def ready_tier_def)
  have b: "8192 \<le> size_f (small_tier_lost ! 0) \<and> (\<forall>n<0. \<not> eligible 8192 (small_tier_lost ! n))"
    by (simp add: small_tier_lost_def ready_tier_def)
  have c: "(\<forall>n<0. \<not> recorded 5 (small_tier_lost ! n)) \<and>
      (\<forall>n<0. pool_ptrs (small_tier_lost ! n) \<noteq> None \<longrightarrow> table_present (small_tier_lost ! n))"
    by simp
  have d: "wcnss_prealloc_get (gives 11) True (Some small_tier_lost) 10000 =
      Inr (11, Some (small_tier_lost[1 := (asked 11 (small_tier_lost ! 1))\<lparr>pool_ptrs := Some [5, 11]\<rparr>]))"
    by (simp add: run_loops small_tier_lost_def ready_tier_def gives_def asked_def)
  have r: "recorded 5 (small_tier_lost ! 1)"
    by (simp add: recorded_def slots_def small_tier_lost_def ready_tier_def)
  from inst a have "wcnss_find_pool_table_slot False (ready_tier 8192 ''cnss-pool-8k'' [7, 9]) 11 =
     Inr (- EPERM, (ready_tier 8192 ''cnss-pool-8k'' [7, 9])\<lparr>pool_ptrs := None\<rparr>)"
    by blast
  moreover from inst b have "wcnss_prealloc_get (gives 11) True (Some small_tier_lost) 8192 =
      Inr (0, Some small_tier_lost)"
    by blast
  moreover from inst c have "wcnss_prealloc_put (Some small_tier_lost) 5 = Inr (0, Some small_tier_lost)"
    by blast
  moreover from inst d have "\<exists>ps'.
      Some (small_tier_lost[1 := (asked 11 (small_tier_lost ! 1))\<lparr>pool_ptrs := Some [5, 11]\<rparr>]) = Some ps' \<and>
      length ps' = length small_tier_lost \<and> mp (ps' ! 0) \<noteq> None \<and> pool_ptrs (ps' ! 0) = None"
    by blast
  ultimately show ?thesis using r by blast
qed
section \<open>The tier that acquire takes\<close>

lemma init_two_tiers:
  "cnss_pool_init kernel_all_ok (Some profileA) = Inr (Some two_tiers)"
  by (simp add: run_loops profileA_def mk_pool_def kernel_all_ok_def two_tiers_def ready_tier_def
      upt_rec)

text \<open>
  Initialisation of any of the three arrays as they are at load gives tiers in ascending
  order of block size.
\<close>

lemma init_sorted:
  "\<exists>ps1. cnss_initialize_prealloc_pool ad wc arrays_at_load env dev = Inr (Some ps1) \<and>
         sorted (map size_f ps1)"
proof -
  have "sorted (map size_f (init_loop env ps0 0))" if "sorted (map size_f ps0)" for ps0
    using that init_keeps[of env ps0] same_sizes[of "init_loop env ps0 0" ps0] by simp
  with shipped_sorted show ?thesis
    by (simp add: cnss_initialize_prealloc_pool_def cnss_assign_prealloc_pool_def
        cnss_pool_init_def arrays_at_load_def)
qed

lemma after_failures_none:
  assumes "\<forall>n<j. \<not> eligible sz (ps ! n)"
  shows "after_failures sz j ps = ps"
  using assms by (intro nth_equalityI) auto

lemma after_failures_first:
  assumes "i < length ps" "eligible sz (ps ! i)" "\<forall>n<i. \<not> eligible sz (ps ! n)"
  shows "after_failures sz (Suc i) ps = ps[i := asked 0 (ps ! i)]"
proof (intro nth_equalityI)
  show "length (after_failures sz (Suc i) ps) = length (ps[i := asked 0 (ps ! i)])" by simp
next
  fix n assume "n < length (after_failures sz (Suc i) ps)"
  then have n: "n < length ps" by simp
  show "after_failures sz (Suc i) ps ! n = ps[i := asked 0 (ps ! i)] ! n"
  proof (cases "n = i")
    case True
    with assms show ?thesis by simp
  next
    case False
    with assms(3) have "n < Suc i \<longrightarrow> \<not> eligible sz (ps ! n)" by (simp add: less_Suc_eq)
    with n False show ?thesis by auto
  qed
qed

text \<open>
  The call from the first tier that acquire takes: \<open>i\<close> is the first tier in the array
  whose block size suffices and whose allocator is present.
\<close>

lemma first_tier_run:
  assumes "i < length ps" "size_f (hd ps) \<le> sz" "eligible sz (ps ! i)"
    and "\<forall>n<i. \<not> eligible sz (ps ! n)"
  shows "pool_ptrs (ps ! i) = None \<longrightarrow>
           wcnss_prealloc_get alloc ok (Some ps) sz = Inr (0, Some ps)"
    and "pool_ptrs (ps ! i) \<noteq> None \<and> alloc i \<noteq> 0 \<longrightarrow>
           wcnss_prealloc_get alloc ok (Some ps) sz =
             (case wcnss_find_pool_table_slot ok (ps ! i) (alloc i) of
                Inl f \<Rightarrow> Inl f
              | Inr (ret, p2) \<Rightarrow>
                  if ret < 0 then
                    Inr (0, Some (ps[i := (asked (alloc i) p2)
                                     \<lparr>mp := map_option (mempool_free (alloc i)) (mp (asked (alloc i) p2))\<rparr>]))
                  else Inr (alloc i, Some (ps[i := asked (alloc i) p2])))"
    and "pool_ptrs (ps ! i) \<noteq> None \<and> alloc i = 0 \<longrightarrow>
           get_loop alloc ok sz ps 0 = get_loop alloc ok sz (ps[i := asked 0 (ps ! i)]) (Suc i)"
    and "sorted (map size_f ps) \<longrightarrow>
           (\<forall>n<length ps. eligible sz (ps ! n) \<longrightarrow> size_f (ps ! i) \<le> size_f (ps ! n))"
proof -
  from assms(1) have ne: "ps \<noteq> []" by auto
  note run = get_run[OF ne assms(2), of alloc ok]
  from assms(4) have before: "\<forall>n<i. eligible sz (ps ! n) \<longrightarrow> alloc n = 0 \<and> pool_ptrs (ps ! n) \<noteq> None"
    by simp
  note same = after_failures_none[OF assms(4)]
  show "pool_ptrs (ps ! i) = None \<longrightarrow>
           wcnss_prealloc_get alloc ok (Some ps) sz = Inr (0, Some ps)"
  proof
    assume n: "pool_ptrs (ps ! i) = None"
    then have "stop_tier alloc sz ps = Some i"
      using assms(1,3) before by (intro stop_tier_SomeI) simp_all
    with n show "wcnss_prealloc_get alloc ok (Some ps) sz = Inr (0, Some ps)"
      unfolding run by (simp add: same)
  qed
  show "pool_ptrs (ps ! i) \<noteq> None \<and> alloc i \<noteq> 0 \<longrightarrow>
           wcnss_prealloc_get alloc ok (Some ps) sz =
             (case wcnss_find_pool_table_slot ok (ps ! i) (alloc i) of
                Inl f \<Rightarrow> Inl f
              | Inr (ret, p2) \<Rightarrow>
                  if ret < 0 then
                    Inr (0, Some (ps[i := (asked (alloc i) p2)
                                     \<lparr>mp := map_option (mempool_free (alloc i)) (mp (asked (alloc i) p2))\<rparr>]))
                  else Inr (alloc i, Some (ps[i := asked (alloc i) p2])))"
  proof
    assume a: "pool_ptrs (ps ! i) \<noteq> None \<and> alloc i \<noteq> 0"
    then obtain t where t: "pool_ptrs (ps ! i) = Some t" by auto
    from a have "stop_tier alloc sz ps = Some i"
      using assms(1,3) before by (intro stop_tier_SomeI) simp_all
    then show "wcnss_prealloc_get alloc ok (Some ps) sz =
             (case wcnss_find_pool_table_slot ok (ps ! i) (alloc i) of
                Inl f \<Rightarrow> Inl f
              | Inr (ret, p2) \<Rightarrow>
                  if ret < 0 then
                    Inr (0, Some (ps[i := (asked (alloc i) p2)
                                     \<lparr>mp := map_option (mempool_free (alloc i)) (mp (asked (alloc i) p2))\<rparr>]))
                  else Inr (alloc i, Some (ps[i := asked (alloc i) p2])))"
      unfolding run by (simp add: same t split: sum.splits prod.splits)
  qed
  show "pool_ptrs (ps ! i) \<noteq> None \<and> alloc i = 0 \<longrightarrow>
           get_loop alloc ok sz ps 0 = get_loop alloc ok sz (ps[i := asked 0 (ps ! i)]) (Suc i)"
  proof
    assume a: "pool_ptrs (ps ! i) \<noteq> None \<and> alloc i = 0"
    have "\<forall>n<Suc i. eligible sz (ps ! n) \<longrightarrow> alloc n = 0 \<and> pool_ptrs (ps ! n) \<noteq> None"
    proof (intro allI impI)
      fix n assume "n < Suc i" "eligible sz (ps ! n)"
      with assms(4) have "n = i" by (auto simp: less_Suc_eq)
      with a show "alloc n = 0 \<and> pool_ptrs (ps ! n) \<noteq> None" by simp
    qed
    from get_loop_to[OF _ this, of ok] assms(1)
    show "get_loop alloc ok sz ps 0 = get_loop alloc ok sz (ps[i := asked 0 (ps ! i)]) (Suc i)"
      by (simp add: after_failures_first[OF assms(1,3,4)])
  qed
  show "sorted (map size_f ps) \<longrightarrow>
           (\<forall>n<length ps. eligible sz (ps ! n) \<longrightarrow> size_f (ps ! i) \<le> size_f (ps ! n))"
  proof (intro allI impI)
    fix n assume srt: "sorted (map size_f ps)" and n: "n < length ps" "eligible sz (ps ! n)"
    with assms(4) have "i \<le> n" by (meson not_le)
    with srt n(1) have "map size_f ps ! i \<le> map size_f ps ! n"
      by (intro sorted_nth_mono) simp_all
    with assms(1) n(1) show "size_f (ps ! i) \<le> size_f (ps ! n)" by simp
  qed
qed

text \<open>
  The tiers 8k and 16k with empty tables: a request of 10000 bytes, the release of the
  block it returns, and the release of it once more.
\<close>

lemma scenario_run:
  assumes nz: "answer 1 \<noteq> 0"
  shows "\<exists>s1 s2. wcnss_prealloc_get answer ok (Some two_tiers) 10000 = Inr (answer 1, Some s1) \<and>
               recorded (answer 1) (s1 ! 1) \<and> size_f (s1 ! 1) = 16 * 1024 \<and>
               \<not> recorded (answer 1) (s1 ! 0) \<and>
               wcnss_prealloc_put (Some s1) (answer 1) = Inr (1, Some s2) \<and>
               wcnss_prealloc_put (Some s2) (answer 1) = Inr (0, Some s2)"
proof -
  define s1 where "s1 = [ready_tier 8192 ''cnss-pool-8k'' [0, 0],
      (asked (answer 1) (ready_tier 16384 ''cnss-pool-16k'' [0, 0]))\<lparr>pool_ptrs := Some [answer 1, 0]\<rparr>]"
  define s2 where "s2 = [ready_tier 8192 ''cnss-pool-8k'' [0, 0],
      (asked (answer 1) (ready_tier 16384 ''cnss-pool-16k'' [0, 0]))
        \<lparr>mp := Some [MpFree (answer 1), MpAlloc (answer 1)], pool_ptrs := Some [0, 0]\<rparr>]"
  from nz have g: "wcnss_prealloc_get answer ok (Some two_tiers) 10000 = Inr (answer 1, Some s1)"
    by (simp add: run_loops two_tiers_def ready_tier_def asked_def s1_def Let_def)
  have r1: "recorded (answer 1) (s1 ! 1)"
    by (simp add: s1_def recorded_def slots_def asked_def ready_tier_def)
  have sz1: "size_f (s1 ! 1) = 16 * 1024"
    by (simp add: s1_def asked_def ready_tier_def)
  from nz have r0: "\<not> recorded (answer 1) (s1 ! 0)"
    by (simp add: s1_def recorded_def slots_def ready_tier_def)
  from nz have p1: "wcnss_prealloc_put (Some s1) (answer 1) = Inr (1, Some s2)"
    by (simp add: run_loops s1_def s2_def ready_tier_def asked_def Let_def)
  from nz have p2: "wcnss_prealloc_put (Some s2) (answer 1) = Inr (0, Some s2)"
    by (simp add: run_loops s2_def ready_tier_def asked_def Let_def)
  from g r1 sz1 r0 p1 p2 show ?thesis by blast
qed

text \<open>
  C7 as stated does not hold, in two ways.  In \<open>small_tier_lost\<close>, which a request that
  could not grow the table of the 8k tier leaves behind, the 8k tier is the first tier
  whose block size is at least 8192 and whose allocator is present, and its allocator
  would give the block at 11; its table pointer is NULL, and a request of 8192 bytes
  returns null with no tier asked.  And with the tiers 8k and 16k in service and empty,
  the 8k tier is the first tier whose block size is at least 100 and whose allocator
  is present; a request of 100 bytes is below the threshold and returns null with no
  tier asked.
\<close>

theorem first_fitting_tier_not_asked_counterexample:
  "wcnss_prealloc_get (gives 11) False (Some small_tier_full) 8192 = Inr (0, Some small_tier_lost) \<and>
   eligible 8192 (small_tier_lost ! 0) \<and> gives 11 0 \<noteq> 0 \<and>
   wcnss_prealloc_get (gives 11) True (Some small_tier_lost) 8192 = Inr (0, Some small_tier_lost) \<and>
   eligible 100 (two_tiers ! 0) \<and>
   wcnss_prealloc_get (gives 11) True (Some two_tiers) 100 = Inr (0, Some two_tiers)"
proof (intro conjI)
  show "wcnss_prealloc_get (gives 11) False (Some small_tier_full) 8192 = Inr (0, Some small_tier_lost)"
    by (simp add: run_loops small_tier_full_def small_tier_lost_def ready_tier_def gives_def)
  show "eligible 8192 (small_tier_lost ! 0)"
    by (simp add: eligible_def small_tier_lost_def ready_tier_def)
  show "gives 11 0 \<noteq> 0" by (simp add: gives_def)
  show "wcnss_prealloc_get (gives 11) True (Some small_tier_lost) 8192 = Inr (0, Some small_tier_lost)"
    by (simp add: run_loops small_tier_lost_def ready_tier_def)
  show "eligible 100 (two_tiers ! 0)"
    by (simp add: eligible_def two_tiers_def ready_tier_def)
  show "wcnss_prealloc_get (gives 11) True (Some two_tiers) 100 = Inr (0, Some two_tiers)"
    by (simp add: run_loops two_tiers_def ready_tier_def)
qed

text \<open>
  C7, amended.  The tiers are in ascending order of block size: initialisation of each
  of the three arrays as they are at load gives them so, and acquire and release leave
  every block size as it is.  For a request at or above the threshold, acquire goes
  through the tiers in the order of the array and takes those whose block size is at
  least the size asked for and whose allocator is present: it asks each of them once,
  as long as the tier has a table pointer that is not NULL and gives no block, and ends
  at the first one whose table pointer is NULL or whose allocator gives a block
  (\<open>stop_tier\<close>; the tiers before it are left as \<open>after_failures\<close> says).  So, with \<open>i\<close>
  the first tier in the array whose block size is at least the size and whose allocator
  is present: when the table pointer of tier \<open>i\<close> is NULL, acquire returns null and no
  tier is asked; when it is not NULL, the allocator of tier \<open>i\<close> is asked before any
  other: a block it gives goes to the insert into the table of tier \<open>i\<close> and no other
  tier is touched, and when it gives none the loop goes on from tier \<open>i + 1\<close> with that
  one request made; and when the array is sorted no tier that acquire takes is smaller
  than tier \<open>i\<close>.  In the scenario, initialisation by a kernel that creates every cache
  and every mempool and returns cleared memory for the tables makes the tiers 8k and
  16k with two empty slots each; if the allocator of the 16k tier gives a block,
  \<open>acquire(10000)\<close> returns it, recorded in the table of the 16k tier and not in that of
  the 8k tier; the release of it returns 1 and the second release returns 0.
\<close>

theorem acquire_takes_tiers_in_array_order:
  "(\<exists>ps1. cnss_initialize_prealloc_pool ad wc arrays_at_load env dev = Inr (Some ps1) \<and>
          sorted (map size_f ps1)) \<and>
   (\<forall>r ps'. wcnss_prealloc_get alloc krealloc_ok (Some ps) sz = Inr (r, Some ps') \<longrightarrow>
             map size_f ps' = map size_f ps) \<and>
   (\<forall>a r ps'. wcnss_prealloc_put (Some ps) a = Inr (r, Some ps') \<longrightarrow>
             map size_f ps' = map size_f ps) \<and>
   (ps \<noteq> [] \<and> size_f (hd ps) \<le> sz \<longrightarrow>
      wcnss_prealloc_get alloc krealloc_ok (Some ps) sz =
        (case stop_tier alloc sz ps of
           None \<Rightarrow> Inr (0, Some (after_failures sz (length ps) ps))
         | Some j \<Rightarrow>
             if pool_ptrs (ps ! j) = None then Inr (0, Some (after_failures sz j ps))
             else
               (case wcnss_find_pool_table_slot krealloc_ok (ps ! j) (alloc j) of
                  Inl f \<Rightarrow> Inl f
                | Inr (ret, p2) \<Rightarrow>
                    if ret < 0 then
                      Inr (0, Some ((after_failures sz j ps)
                                      [j := (asked (alloc j) p2)
                                         \<lparr>mp := map_option (mempool_free (alloc j)) (mp (asked (alloc j) p2))\<rparr>]))
                    else Inr (alloc j, Some ((after_failures sz j ps)[j := asked (alloc j) p2]))))) \<and>
   (i < length ps \<and> size_f (hd ps) \<le> sz \<and> eligible sz (ps ! i) \<and> (\<forall>n<i. \<not> eligible sz (ps ! n)) \<longrightarrow>
      (pool_ptrs (ps ! i) = None \<longrightarrow>
         wcnss_prealloc_get alloc krealloc_ok (Some ps) sz = Inr (0, Some ps)) \<and>
      (pool_ptrs (ps ! i) \<noteq> None \<and> alloc i \<noteq> 0 \<longrightarrow>
         wcnss_prealloc_get alloc krealloc_ok (Some ps) sz =
           (case wcnss_find_pool_table_slot krealloc_ok (ps ! i) (alloc i) of
              Inl f \<Rightarrow> Inl f
            | Inr (ret, p2) \<Rightarrow>
                if ret < 0 then
                  Inr (0, Some (ps[i := (asked (alloc i) p2)
                                   \<lparr>mp := map_option (mempool_free (alloc i)) (mp (asked (alloc i) p2))\<rparr>]))
                else Inr (alloc i, Some (ps[i := asked (alloc i) p2])))) \<and>
      (pool_ptrs (ps ! i) \<noteq> None \<and> alloc i = 0 \<longrightarrow>
         get_loop alloc krealloc_ok sz ps 0 =
           get_loop alloc krealloc_ok sz (ps[i := asked 0 (ps ! i)]) (Suc i)) \<and>
      (sorted (map size_f ps) \<longrightarrow>
         (\<forall>n<length ps. eligible sz (ps ! n) \<longrightarrow> size_f (ps ! i) \<le> size_f (ps ! n)))) \<and>
   cnss_pool_init kernel_all_ok (Some profileA) = Inr (Some two_tiers) \<and>
   (\<forall>answer ok. answer 1 \<noteq> 0 \<longrightarrow>
      (\<exists>s1 s2. wcnss_prealloc_get answer ok (Some two_tiers) 10000 = Inr (answer 1, Some s1) \<and>
               recorded (answer 1) (s1 ! 1) \<and> size_f (s1 ! 1) = 16 * 1024 \<and>
               \<not> recorded (answer 1) (s1 ! 0) \<and>
               wcnss_prealloc_put (Some s1) (answer 1) = Inr (1, Some s2) \<and>
               wcnss_prealloc_put (Some s2) (answer 1) = Inr (0, Some s2)))"
proof (intro conjI)
  show "\<exists>ps1. cnss_initialize_prealloc_pool ad wc arrays_at_load env dev = Inr (Some ps1) \<and>
          sorted (map size_f ps1)"
    by (rule init_sorted)
  show "\<forall>r ps'. wcnss_prealloc_get alloc krealloc_ok (Some ps) sz = Inr (r, Some ps') \<longrightarrow>
             map size_f ps' = map size_f ps"
  proof (intro allI impI)
    fix r ps' assume "wcnss_prealloc_get alloc krealloc_ok (Some ps) sz = Inr (r, Some ps')"
    from get_keeps[OF this] show "map size_f ps' = map size_f ps"
      by (intro same_sizes) simp_all
  qed
  show "\<forall>a r ps'. wcnss_prealloc_put (Some ps) a = Inr (r, Some ps') \<longrightarrow>
             map size_f ps' = map size_f ps"
  proof (intro allI impI)
    fix a r ps' assume "wcnss_prealloc_put (Some ps) a = Inr (r, Some ps')"
    from put_keeps[OF this] show "map size_f ps' = map size_f ps"
      by (intro same_sizes) simp_all
  qed
  show "ps \<noteq> [] \<and> size_f (hd ps) \<le> sz \<longrightarrow>
      wcnss_prealloc_get alloc krealloc_ok (Some ps) sz =
        (case stop_tier alloc sz ps of
           None \<Rightarrow> Inr (0, Some (after_failures sz (length ps) ps))
         | Some j \<Rightarrow>
             if pool_ptrs (ps ! j) = None then Inr (0, Some (after_failures sz j ps))
             else
               (case wcnss_find_pool_table_slot krealloc_ok (ps ! j) (alloc j) of
                  Inl f \<Rightarrow> Inl f
                | Inr (ret, p2) \<Rightarrow>
                    if ret < 0 then
                      Inr (0, Some ((after_failures sz j ps)
                                      [j := (asked (alloc j) p2)
                                         \<lparr>mp := map_option (mempool_free (alloc j)) (mp (asked (alloc j) p2))\<rparr>]))
                    else Inr (alloc j, Some ((after_failures sz j ps)[j := asked (alloc j) p2]))))"
  proof
    assume "ps \<noteq> [] \<and> size_f (hd ps) \<le> sz"
    then have "ps \<noteq> []" "size_f (hd ps) \<le> sz" by simp_all
    then show "wcnss_prealloc_get alloc krealloc_ok (Some ps) sz =
        (case stop_tier alloc sz ps of
           None \<Rightarrow> Inr (0, Some (after_failures sz (length ps) ps))
         | Some j \<Rightarrow>
             if pool_ptrs (ps ! j) = None then Inr (0, Some (after_failures sz j ps))
             else
               (case wcnss_find_pool_table_slot krealloc_ok (ps ! j) (alloc j) of
                  Inl f \<Rightarrow> Inl f
                | Inr (ret, p2) \<Rightarrow>
                    if ret < 0 then
                      Inr (0, Some ((after_failures sz j ps)
                                      [j := (asked (alloc j) p2)
                                         \<lparr>mp := map_option (mempool_free (alloc j)) (mp (asked (alloc j) p2))\<rparr>]))
                    else Inr (alloc j, Some ((after_failures sz j ps)[j := asked (alloc j) p2]))))"
      by (rule get_run)
  qed
  show "i < length ps \<and> size_f (hd ps) \<le> sz \<and> eligible sz (ps ! i) \<and> (\<forall>n<i. \<not> eligible sz (ps ! n)) \<longrightarrow>
      (pool_ptrs (ps ! i) = None \<longrightarrow>
         wcnss_prealloc_get alloc krealloc_ok (Some ps) sz = Inr (0, Some ps)) \<and>
      (pool_ptrs (ps ! i) \<noteq> None \<and> alloc i \<noteq> 0 \<longrightarrow>
         wcnss_prealloc_get alloc krealloc_ok (Some ps) sz =
           (case wcnss_find_pool_table_slot krealloc_ok (ps ! i) (alloc i) of
              Inl f \<Rightarrow> Inl f
            | Inr (ret, p2) \<Rightarrow>
                if ret < 0 then
                  Inr (0, Some (ps[i := (asked (alloc i) p2)
                                   \<lparr>mp := map_option (mempool_free (alloc i)) (mp (asked (alloc i) p2))\<rparr>]))
                else Inr (alloc i, Some (ps[i := asked (alloc i) p2])))) \<and>
      (pool_ptrs (ps ! i) \<noteq> None \<and> alloc i = 0 \<longrightarrow>
         get_loop alloc krealloc_ok sz ps 0 =
           get_loop alloc krealloc_ok sz (ps[i := asked 0 (ps ! i)]) (Suc i)) \<and>
      (sorted (map size_f ps) \<longrightarrow>
         (\<forall>n<length ps. eligible sz (ps ! n) \<longrightarrow> size_f (ps ! i) \<le> size_f (ps ! n)))"
  proof
    assume "i < length ps \<and> size_f (hd ps) \<le> sz \<and> eligible sz (ps ! i) \<and> (\<forall>n<i. \<not> eligible sz (ps ! n))"
    then have h: "i < length ps" "size_f (hd ps) \<le> sz" "eligible sz (ps ! i)"
      "\<forall>n<i. \<not> eligible sz (ps ! n)" by simp_all
    show "(pool_ptrs (ps ! i) = None \<longrightarrow>
         wcnss_prealloc_get alloc krealloc_ok (Some ps) sz = Inr (0, Some ps)) \<and>
      (pool_ptrs (ps ! i) \<noteq> None \<and> alloc i \<noteq> 0 \<longrightarrow>
         wcnss_prealloc_get alloc krealloc_ok (Some ps) sz =
           (case wcnss_find_pool_table_slot krealloc_ok (ps ! i) (alloc i) of
              Inl f \<Rightarrow> Inl f
            | Inr (ret, p2) \<Rightarrow>
                if ret < 0 then
                  Inr (0, Some (ps[i := (asked (alloc i) p2)
                                   \<lparr>mp := map_option (mempool_free (alloc i)) (mp (asked (alloc i) p2))\<rparr>]))
                else Inr (alloc i, Some (ps[i := asked (alloc i) p2])))) \<and>
      (pool_ptrs (ps ! i) \<noteq> None \<and> alloc i = 0 \<longrightarrow>
         get_loop alloc krealloc_ok sz ps 0 =
           get_loop alloc krealloc_ok sz (ps[i := asked 0 (ps ! i)]) (Suc i)) \<and>
      (sorted (map size_f ps) \<longrightarrow>
         (\<forall>n<length ps. eligible sz (ps ! n) \<longrightarrow> size_f (ps ! i) \<le> size_f (ps ! n)))"
      by (intro conjI first_tier_run[OF h])
  qed
  show "cnss_pool_init kernel_all_ok (Some profileA) = Inr (Some two_tiers)"
    by (rule init_two_tiers)
  show "\<forall>answer ok. answer 1 \<noteq> 0 \<longrightarrow>
      (\<exists>s1 s2. wcnss_prealloc_get answer ok (Some two_tiers) 10000 = Inr (answer 1, Some s1) \<and>
               recorded (answer 1) (s1 ! 1) \<and> size_f (s1 ! 1) = 16 * 1024 \<and>
               \<not> recorded (answer 1) (s1 ! 0) \<and>
               wcnss_prealloc_put (Some s1) (answer 1) = Inr (1, Some s2) \<and>
               wcnss_prealloc_put (Some s2) (answer 1) = Inr (0, Some s2))"
    by (intro allI impI scenario_run)
qed

theorem acquire_takes_tiers_in_array_order_witness:
  "(\<exists>ps1. cnss_initialize_prealloc_pool 1 2 arrays_at_load kernel_all_ok 0 = Inr (Some ps1) \<and>
          sorted (map size_f ps1)) \<and>
   map size_f [two_tiers ! 0, (asked 4096 (two_tiers ! 1))\<lparr>pool_ptrs := Some [4096, 0]\<rparr>] =
     map size_f two_tiers \<and>
   map size_f [two_tiers ! 0,
               (asked 4096 (two_tiers ! 1))
                 \<lparr>mp := Some [MpFree 4096, MpAlloc 4096], pool_ptrs := Some [0, 0]\<rparr>] =
     map size_f [two_tiers ! 0, (asked 4096 (two_tiers ! 1))\<lparr>pool_ptrs := Some [4096, 0]\<rparr>] \<and>
   wcnss_prealloc_get (gives 4096) True (Some two_tiers) 10000 =
     (case stop_tier (gives 4096) 10000 two_tiers of
        None \<Rightarrow> Inr (0, Some (after_failures 10000 (length two_tiers) two_tiers))
      | Some j \<Rightarrow>
          if pool_ptrs (two_tiers ! j) = None then Inr (0, Some (after_failures 10000 j two_tiers))
          else
            (case wcnss_find_pool_table_slot True (two_tiers ! j) (gives 4096 j) of
               Inl f \<Rightarrow> Inl f
             | Inr (ret, p2) \<Rightarrow>
                 if ret < 0 then
                   Inr (0, Some ((after_failures 10000 j two_tiers)
                                   [j := (asked (gives 4096 j) p2)
                                      \<lparr>mp := map_option (mempool_free (gives 4096 j))
                                               (mp (asked (gives 4096 j) p2))\<rparr>]))
                 else Inr (gives 4096 j,
                           Some ((after_failures 10000 j two_tiers)[j := asked (gives 4096 j) p2])))) \<and>
   wcnss_prealloc_get (gives 4096) True (Some two_tiers) 10000 =
     (case wcnss_find_pool_table_slot True (two_tiers ! 1) (gives 4096 1) of
        Inl f \<Rightarrow> Inl f
      | Inr (ret, p2) \<Rightarrow>
          if ret < 0 then
            Inr (0, Some (two_tiers[1 := (asked (gives 4096 1) p2)
                             \<lparr>mp := map_option (mempool_free (gives 4096 1))
                                      (mp (asked (gives 4096 1) p2))\<rparr>]))
          else Inr (gives 4096 1, Some (two_tiers[1 := asked (gives 4096 1) p2]))) \<and>
   size_f (two_tiers ! 0) \<le> size_f (two_tiers ! 1) \<and>
   wcnss_prealloc_get (gives 11) True (Some small_tier_lost) 8192 = Inr (0, Some small_tier_lost) \<and>
   get_loop first_fails True 8192 two_tiers 0 =
     get_loop first_fails True 8192 (two_tiers[0 := asked 0 (two_tiers ! 0)]) (Suc 0) \<and>
   cnss_pool_init kernel_all_ok (Some profileA) = Inr (Some two_tiers) \<and>
   (\<exists>s1 s2. wcnss_prealloc_get (gives 4096) True (Some two_tiers) 10000 = Inr (gives 4096 1, Some s1) \<and>
            recorded (gives 4096 1) (s1 ! 1) \<and> size_f (s1 ! 1) = 16 * 1024 \<and>
            \<not> recorded (gives 4096 1) (s1 ! 0) \<and>
            wcnss_prealloc_put (Some s1) (gives 4096 1) = Inr (1, Some s2) \<and>
            wcnss_prealloc_put (Some s2) (gives 4096 1) = Inr (0, Some s2))"
proof -
  note at_16k = acquire_takes_tiers_in_array_order[where ps=two_tiers and sz=10000
      and alloc="gives 4096" and krealloc_ok=True and i=1 and env=kernel_all_ok
      and ad=1 and wc=2 and dev=0]
  note at_put = acquire_takes_tiers_in_array_order[where
      ps="[two_tiers ! 0, (asked 4096 (two_tiers ! 1))\<lparr>pool_ptrs := Some [4096, 0]\<rparr>]"]
  note at_lost = acquire_takes_tiers_in_array_order[where ps=small_tier_lost and sz=8192
      and alloc="gives 11" and krealloc_ok=True and i=0]
  note at_fail = acquire_takes_tiers_in_array_order[where ps=two_tiers and sz=8192
      and alloc=first_fails and krealloc_ok=True and i=0]
  have g: "wcnss_prealloc_get (gives 4096) True (Some two_tiers) 10000 =
      Inr (4096, Some [two_tiers ! 0, (asked 4096 (two_tiers ! 1))\<lparr>pool_ptrs := Some [4096, 0]\<rparr>])"
    by (simp add: run_loops two_tiers_def ready_tier_def gives_def asked_def)
  have p: "wcnss_prealloc_put
      (Some [two_tiers ! 0, (asked 4096 (two_tiers ! 1))\<lparr>pool_ptrs := Some [4096, 0]\<rparr>]) 4096 =
      Inr (1, Some [two_tiers ! 0,
                    (asked 4096 (two_tiers ! 1))
                      \<lparr>mp := Some [MpFree 4096, MpAlloc 4096], pool_ptrs := Some [0, 0]\<rparr>])"
    by (simp add: run_loops two_tiers_def ready_tier_def asked_def Let_def)
  have th: "two_tiers \<noteq> [] \<and> size_f (hd two_tiers) \<le> 10000"
    by (simp add: two_tiers_def ready_tier_def)
  have f16: "1 < length two_tiers \<and> size_f (hd two_tiers) \<le> 10000 \<and> eligible 10000 (two_tiers ! 1) \<and>
      (\<forall>n<1. \<not> eligible 10000 (two_tiers ! n))"
    by (simp add: two_tiers_def ready_tier_def eligible_def)
  have t16: "pool_ptrs (two_tiers ! 1) \<noteq> None \<and> gives 4096 1 \<noteq> 0"
    by (simp add: two_tiers_def ready_tier_def gives_def)
  have srt: "sorted (map size_f two_tiers)"
    by (simp add: two_tiers_def ready_tier_def)
  have fl: "0 < length small_tier_lost \<and> size_f (hd small_tier_lost) \<le> 8192 \<and>
      eligible 8192 (small_tier_lost ! 0) \<and> (\<forall>n<0. \<not> eligible 8192 (small_tier_lost ! n))"
    by (simp add: small_tier_lost_def ready_tier_def eligible_def)
  have tl: "pool_ptrs (small_tier_lost ! 0) = None"
    by (simp add: small_tier_lost_def ready_tier_def)
  have ff: "0 < length two_tiers \<and> size_f (hd two_tiers) \<le> 8192 \<and>
      eligible 8192 (two_tiers ! 0) \<and> (\<forall>n<0. \<not> eligible 8192 (two_tiers ! n))"
    by (simp add: two_tiers_def ready_tier_def eligible_def)
  have tf: "pool_ptrs (two_tiers ! 0) \<noteq> None \<and> first_fails 0 = 0"
    by (simp add: two_tiers_def ready_tier_def first_fails_def)
  have nz: "gives 4096 1 \<noteq> 0" by (simp add: gives_def)
  have l1: "1 < length two_tiers" by (simp add: two_tiers_def)
  have e1: "eligible 8192 (two_tiers ! 1)" by (simp add: two_tiers_def ready_tier_def eligible_def)
  note first16 = at_16k[THEN conjunct2, THEN conjunct2, THEN conjunct2, THEN conjunct2,
      THEN conjunct1, THEN mp, OF f16]
  note firstl = at_lost[THEN conjunct2, THEN conjunct2, THEN conjunct2, THEN conjunct2,
      THEN conjunct1, THEN mp, OF fl]
  note firstf = at_fail[THEN conjunct2, THEN conjunct2, THEN conjunct2, THEN conjunct2,
      THEN conjunct1, THEN mp, OF ff]
  show ?thesis
  proof (intro conjI)
    show "\<exists>ps1. cnss_initialize_prealloc_pool 1 2 arrays_at_load kernel_all_ok 0 = Inr (Some ps1) \<and>
          sorted (map size_f ps1)"
      by (rule at_16k[THEN conjunct1])
    show "map size_f [two_tiers ! 0, (asked 4096 (two_tiers ! 1))\<lparr>pool_ptrs := Some [4096, 0]\<rparr>] =
        map size_f two_tiers"
      by (rule at_16k[THEN conjunct2, THEN conjunct1, THEN spec, THEN spec, THEN mp, OF g])
    show "map size_f [two_tiers ! 0,
               (asked 4096 (two_tiers ! 1))
                 \<lparr>mp := Some [MpFree 4096, MpAlloc 4096], pool_ptrs := Some [0, 0]\<rparr>] =
        map size_f [two_tiers ! 0, (asked 4096 (two_tiers ! 1))\<lparr>pool_ptrs := Some [4096, 0]\<rparr>]"
      by (rule at_put[THEN conjunct2, THEN conjunct2, THEN conjunct1, THEN spec, THEN spec, THEN spec,
            THEN mp, OF p])
    show "wcnss_prealloc_get (gives 4096) True (Some two_tiers) 10000 =
     (case stop_tier (gives 4096) 10000 two_tiers of
        None \<Rightarrow> Inr (0, Some (after_failures 10000 (length two_tiers) two_tiers))
      | Some j \<Rightarrow>
          if pool_ptrs (two_tiers ! j) = None then Inr (0, Some (after_failures 10000 j two_tiers))
          else
            (case wcnss_find_pool_table_slot True (two_tiers ! j) (gives 4096 j) of
               Inl f \<Rightarrow> Inl f
             | Inr (ret, p2) \<Rightarrow>
                 if ret < 0 then
                   Inr (0, Some ((after_failures 10000 j two_tiers)
                                   [j := (asked (gives 4096 j) p2)
                                      \<lparr>mp := map_option (mempool_free (gives 4096 j))
                                               (mp (asked (gives 4096 j) p2))\<rparr>]))
                 else Inr (gives 4096 j,
                           Some ((after_failures 10000 j two_tiers)[j := asked (gives 4096 j) p2]))))"
      by (rule at_16k[THEN conjunct2, THEN conjunct2, THEN conjunct2, THEN conjunct1, THEN mp, OF th])
    show "wcnss_prealloc_get (gives 4096) True (Some two_tiers) 10000 =
     (case wcnss_find_pool_table_slot True (two_tiers ! 1) (gives 4096 1) of
        Inl f \<Rightarrow> Inl f
      | Inr (ret, p2) \<Rightarrow>
          if ret < 0 then
            Inr (0, Some (two_tiers[1 := (asked (gives 4096 1) p2)
                             \<lparr>mp := map_option (mempool_free (gives 4096 1))
                                      (mp (asked (gives 4096 1) p2))\<rparr>]))
          else Inr (gives 4096 1, Some (two_tiers[1 := asked (gives 4096 1) p2])))"
      by (rule first16[THEN conjunct2, THEN conjunct1, THEN mp, OF t16])
    show "size_f (two_tiers ! 0) \<le> size_f (two_tiers ! 1)"
      by (rule firstf[THEN conjunct2, THEN conjunct2, THEN conjunct2, THEN mp, OF srt,
            THEN spec, THEN mp, OF l1, THEN mp, OF e1])
    show "wcnss_prealloc_get (gives 11) True (Some small_tier_lost) 8192 = Inr (0, Some small_tier_lost)"
      by (rule firstl[THEN conjunct1, THEN mp, OF tl])
    show "get_loop first_fails True 8192 two_tiers 0 =
        get_loop first_fails True 8192 (two_tiers[0 := asked 0 (two_tiers ! 0)]) (Suc 0)"
      by (rule firstf[THEN conjunct2, THEN conjunct2, THEN conjunct1, THEN mp, OF tf])
    show "cnss_pool_init kernel_all_ok (Some profileA) = Inr (Some two_tiers)"
      by (rule at_16k[THEN conjunct2, THEN conjunct2, THEN conjunct2, THEN conjunct2,
            THEN conjunct2, THEN conjunct1])
    show "\<exists>s1 s2. wcnss_prealloc_get (gives 4096) True (Some two_tiers) 10000 = Inr (gives 4096 1, Some s1) \<and>
            recorded (gives 4096 1) (s1 ! 1) \<and> size_f (s1 ! 1) = 16 * 1024 \<and>
            \<not> recorded (gives 4096 1) (s1 ! 0) \<and>
            wcnss_prealloc_put (Some s1) (gives 4096 1) = Inr (1, Some s2) \<and>
            wcnss_prealloc_put (Some s2) (gives 4096 1) = Inr (0, Some s2)"
      by (rule at_16k[THEN conjunct2, THEN conjunct2, THEN conjunct2, THEN conjunct2,
            THEN conjunct2, THEN conjunct2, THEN spec[of _ "gives 4096"], THEN spec[of _ True],
            THEN mp, OF nz])
  qed
qed

section \<open>The leak audit reports and changes nothing\<close>

text \<open>
  The audit where it can read every table over its capacity (the table is present with
  at least \<open>table_capacity\<close> slots, or the capacity is 0): it prints, tier by tier and
  slot by slot, exactly the slots that are not empty, each with the name of its tier
  and its index, and returns with the state as it was.
\<close>

lemma audit_of_readable_tables:
  assumes "\<forall>p\<in>set ps. auditable p"
  shows "wcnss_check_pool_lists (Some ps) = Inr (concat (map leaks_of ps), Some ps) \<and>
         (\<forall>i<length ps. \<forall>k<table_capacity (ps ! i). slots (ps ! i) ! k \<noteq> 0 \<longrightarrow>
            (slots (ps ! i) ! k, name (ps ! i), k) \<in> set (concat (map leaks_of ps))) \<and>
         (\<forall>r\<in>set (concat (map leaks_of ps)). \<exists>i<length ps. \<exists>k<table_capacity (ps ! i).
            r = (slots (ps ! i) ! k, name (ps ! i), k) \<and> slots (ps ! i) ! k \<noteq> 0)"
proof (intro conjI allI impI ballI)
  from assms have "\<forall>n<length ps. 0 \<le> n \<longrightarrow> auditable (ps ! n)" by simp
  from check_pools_ok[OF this, of "[]"]
  show "wcnss_check_pool_lists (Some ps) = Inr (concat (map leaks_of ps), Some ps)"
    by (simp add: wcnss_check_pool_lists_def)
next
  fix i k
  assume i: "i < length ps" and k: "k < table_capacity (ps ! i)" and nz: "slots (ps ! i) ! k \<noteq> 0"
  from k nz have "(slots (ps ! i) ! k, name (ps ! i), k) \<in> set (leaks_of (ps ! i))"
    by (auto simp: leaks_of_def)
  with i show "(slots (ps ! i) ! k, name (ps ! i), k) \<in> set (concat (map leaks_of ps))"
    by auto
next
  fix r
  assume "r \<in> set (concat (map leaks_of ps))"
  then obtain p where p: "p \<in> set ps" "r \<in> set (leaks_of p)" by auto
  then obtain i where i: "i < length ps" "p = ps ! i" by (auto simp: in_set_conv_nth)
  from p(2) obtain k where "k < table_capacity p" "r = (slots p ! k, name p, k)" "slots p ! k \<noteq> 0"
    by (auto simp: leaks_of_def)
  with i show "\<exists>i<length ps. \<exists>k<table_capacity (ps ! i).
            r = (slots (ps ! i) ! k, name (ps ! i), k) \<and> slots (ps ! i) ! k \<noteq> 0"
    by blast
qed

text \<open>
  C9.  The audit is to report every slot that is not empty, of every tier, at any time
  it is called.  Acquire and release test the table pointer of a tier before they use
  it; the audit reads \<open>table_capacity\<close> slots through it untested.  In
  \<open>small_tier_full\<close> the 8k tier records 7 and 9 and the 16k tier records 5, and the
  audit reports the three of them.  A request of 8192 bytes whose insert cannot grow
  the full table of the 8k tier leaves \<open>small_tier_lost\<close>: the table pointer of the
  8k tier is NULL, its capacity is still 2, and the 16k tier still records 5 in its
  slot 0.  The audit of that state reads slot 0 of the 8k tier through the NULL
  pointer; it does not come to the 16k tier and reports nothing of the block at 5.
\<close>

theorem audit_stops_at_lost_table:
  "wcnss_check_pool_lists (Some small_tier_full) =
     Inr ([(7, ''cnss-pool-8k'', 0), (9, ''cnss-pool-8k'', 1), (5, ''cnss-pool-16k'', 0)],
          Some small_tier_full) \<and>
   wcnss_prealloc_get (gives 11) False (Some small_tier_full) 8192 = Inr (0, Some small_tier_lost) \<and>
   pool_ptrs (small_tier_lost ! 0) = None \<and> table_capacity (small_tier_lost ! 0) = 2 \<and>
   leaks_of (small_tier_lost ! 1) = [(5, ''cnss-pool-16k'', 0)] \<and>
   wcnss_check_pool_lists (Some small_tier_lost) = Inl NullDeref"
proof (intro conjI)
  show "wcnss_check_pool_lists (Some small_tier_full) =
     Inr ([(7, ''cnss-pool-8k'', 0), (9, ''cnss-pool-8k'', 1), (5, ''cnss-pool-16k'', 0)],
          Some small_tier_full)"
    by (simp add: run_loops small_tier_full_def ready_tier_def)
  show "wcnss_prealloc_get (gives 11) False (Some small_tier_full) 8192 = Inr (0, Some small_tier_lost)"
    by (simp add: run_loops small_tier_full_def small_tier_lost_def ready_tier_def gives_def)
  show "pool_ptrs (small_tier_lost ! 0) = None" "table_capacity (small_tier_lost ! 0) = 2"
    by (simp_all add: small_tier_lost_def ready_tier_def)
  show "leaks_of (small_tier_lost ! 1) = [(5, ''cnss-pool-16k'', 0)]"
    by (simp add: small_tier_lost_def ready_tier_def leaks_of_def slots_def upt_rec)
  show "wcnss_check_pool_lists (Some small_tier_lost) = Inl NullDeref"
    by (simp add: run_loops small_tier_lost_def ready_tier_def)
qed

section \<open>The audit and a table that is absent\<close>

lemma in_bounds_init_tier:
  "pool_ptrs p = None \<Longrightarrow> in_bounds (init_tier r p)"
  by (cases "kmalloc_res r") (simp_all add: init_tier_def in_bounds_def)

text \<open>
  C10.  The audit reads \<open>table_capacity\<close> slots of every tier through the table pointer
  and does not test the pointer.  It completes when every tier's table is present.
  With every table that is present as large as its capacity, it runs into the null
  pointer exactly when some tier with a capacity above 0 has no table.  Both ways to
  such a tier are open: an initialisation in which \<^verbatim>\<open>kmalloc\<close> returns NULL for the
  table of a tier with a reserve above 0 leaves the capacity at the reserve and the
  pointer NULL, and an acquire in which the growth of a full table fails leaves the
  pointer NULL and the capacity as it was; the audit of either state runs into the
  null pointer.
\<close>

theorem audit_reads_absent_table:
  "((\<forall>p\<in>set ps. table_present p) \<longrightarrow>
      (\<exists>out. wcnss_check_pool_lists (Some ps) = Inr (out, Some ps))) \<and>
   ((\<forall>n<length ps. in_bounds (ps ! n)) \<longrightarrow>
      (wcnss_check_pool_lists (Some ps) = Inl NullDeref) =
      (\<exists>i<length ps. pool_ptrs (ps ! i) = None \<and> 0 < table_capacity (ps ! i))) \<and>
   (i < length ps0 \<and> (\<forall>p\<in>set ps0. pool_ptrs p = None) \<and> 0 < min_f (ps0 ! i) \<and>
    cache_ok (env i) \<and> mempool_ok (env i) \<and> kmalloc_res (env i) = None \<longrightarrow>
      (\<exists>ps1. cnss_pool_init env (Some ps0) = Inr (Some ps1) \<and> mp (ps1 ! i) \<noteq> None \<and>
             pool_ptrs (ps1 ! i) = None \<and> table_capacity (ps1 ! i) = min_f (ps0 ! i) \<and>
             wcnss_check_pool_lists (Some ps1) = Inl NullDeref)) \<and>
   (j < length ps2 \<and> size_f (hd ps2) \<le> sz \<and> (\<forall>n<length ps2. in_bounds (ps2 ! n)) \<and>
    eligible sz (ps2 ! j) \<and> table_present (ps2 ! j) \<and> 0 \<notin> set (slots (ps2 ! j)) \<and>
    0 < table_capacity (ps2 ! j) \<and>
    (\<forall>n<j. eligible sz (ps2 ! n) \<longrightarrow> alloc n = 0 \<and> pool_ptrs (ps2 ! n) \<noteq> None) \<and> alloc j \<noteq> 0 \<longrightarrow>
      (\<exists>ps3. wcnss_prealloc_get alloc False (Some ps2) sz = Inr (0, Some ps3) \<and>
             pool_ptrs (ps3 ! j) = None \<and> table_capacity (ps3 ! j) = table_capacity (ps2 ! j) \<and>
             wcnss_check_pool_lists (Some ps3) = Inl NullDeref))"
proof (intro conjI impI)
  assume "\<forall>p\<in>set ps. table_present p"
  then have "\<forall>n<length ps. table_present (ps ! n)" by simp
  then have "\<forall>n<length ps. 0 \<le> n \<longrightarrow> auditable (ps ! n)"
    by (auto simp: table_present_def auditable_def split: option.splits)
  from check_pools_ok[OF this, of "[]"]
  show "\<exists>out. wcnss_check_pool_lists (Some ps) = Inr (out, Some ps)"
    by (simp add: wcnss_check_pool_lists_def)
next
  assume "\<forall>n<length ps. in_bounds (ps ! n)"
  then show "(wcnss_check_pool_lists (Some ps) = Inl NullDeref) =
      (\<exists>i<length ps. pool_ptrs (ps ! i) = None \<and> 0 < table_capacity (ps ! i))"
    by (rule audit_null_iff)
next
  assume a: "i < length ps0 \<and> (\<forall>p\<in>set ps0. pool_ptrs p = None) \<and> 0 < min_f (ps0 ! i) \<and>
    cache_ok (env i) \<and> mempool_ok (env i) \<and> kmalloc_res (env i) = None"
  define ps1 where "ps1 = init_loop env ps0 0"
  from init_loop_nth[of env ps0 0] have len: "length ps1 = length ps0"
    and nth: "\<forall>n<length ps0. ps1 ! n = init_tier (env n) (ps0 ! n)"
    by (simp_all add: ps1_def)
  from a nth have i: "mp (ps1 ! i) \<noteq> None" "pool_ptrs (ps1 ! i) = None"
    "table_capacity (ps1 ! i) = min_f (ps0 ! i)"
    by (simp_all add: init_tier_def)
  have "\<forall>n<length ps1. in_bounds (ps1 ! n)"
  proof (intro allI impI)
    fix n assume n: "n < length ps1"
    with len a have "pool_ptrs (ps0 ! n) = None" by simp
    with n len nth show "in_bounds (ps1 ! n)" by (simp add: in_bounds_init_tier)
  qed
  from audit_null_iff[OF this] a i len
  have "wcnss_check_pool_lists (Some ps1) = Inl NullDeref" by auto
  with i show "\<exists>ps1. cnss_pool_init env (Some ps0) = Inr (Some ps1) \<and> mp (ps1 ! i) \<noteq> None \<and>
             pool_ptrs (ps1 ! i) = None \<and> table_capacity (ps1 ! i) = min_f (ps0 ! i) \<and>
             wcnss_check_pool_lists (Some ps1) = Inl NullDeref"
    by (intro exI[of _ ps1]) (simp add: cnss_pool_init_def ps1_def)
next
  assume a: "j < length ps2 \<and> size_f (hd ps2) \<le> sz \<and> (\<forall>n<length ps2. in_bounds (ps2 ! n)) \<and>
    eligible sz (ps2 ! j) \<and> table_present (ps2 ! j) \<and> 0 \<notin> set (slots (ps2 ! j)) \<and>
    0 < table_capacity (ps2 ! j) \<and>
    (\<forall>n<j. eligible sz (ps2 ! n) \<longrightarrow> alloc n = 0 \<and> pool_ptrs (ps2 ! n) \<noteq> None) \<and> alloc j \<noteq> 0"
  then have j: "j < length ps2" and th: "size_f (hd ps2) \<le> sz" and el: "eligible sz (ps2 ! j)"
    and tp: "table_present (ps2 ! j)" and full: "0 \<notin> set (slots (ps2 ! j))"
    and cap: "0 < table_capacity (ps2 ! j)" and nz: "alloc j \<noteq> 0"
    and before: "\<forall>n<j. eligible sz (ps2 ! n) \<longrightarrow> alloc n = 0 \<and> pool_ptrs (ps2 ! n) \<noteq> None"
    and ib: "\<forall>n<length ps2. in_bounds (ps2 ! n)"
    by blast+
  from tp obtain t where t: "pool_ptrs (ps2 ! j) = Some t" "length t = table_capacity (ps2 ! j)"
    by (auto simp: table_present_def split: option.splits)
  with full have "0 \<notin> set t" by (simp add: slots_def)
  from find_slot_full[OF t this, of False "alloc j"]
  have ins: "wcnss_find_pool_table_slot False (ps2 ! j) (alloc j) =
      Inr (- EPERM, (ps2 ! j)\<lparr>pool_ptrs := None\<rparr>)" by simp
  from t have tj: "pool_ptrs (ps2 ! j) \<noteq> None" by simp
  let ?p2 = "(ps2 ! j)\<lparr>pool_ptrs := None\<rparr>"
  let ?q = "asked (alloc j) ?p2"
  from get_loop_hit_at[OF j el tj before nz ins]
  obtain pa where pa: "get_loop alloc False sz ps2 0 = Inr (pa[j := ?q], j, alloc j, - EPERM)"
    "length pa = length ps2"
    "\<forall>n<length ps2. pa ! n = (if n < j \<and> eligible sz (ps2 ! n) then asked 0 (ps2 ! n) else ps2 ! n)"
    by blast
  define ps3 where "ps3 = (pa[j := ?q])[j := ?q\<lparr>mp := map_option (mempool_free (alloc j)) (mp ?q)\<rparr>]"
  from j have ne: "ps2 \<noteq> []" by auto
  from pa(1,2) j have g: "wcnss_prealloc_get alloc False (Some ps2) sz = Inr (0, Some ps3)"
    by (simp add: get_unfold[OF ne th] EPERM_def ps3_def)
  from pa(2) j have l3: "length ps3 = length ps2" by (simp add: ps3_def)
  from pa(2) j have pj: "pool_ptrs (ps3 ! j) = None" "table_capacity (ps3 ! j) = table_capacity (ps2 ! j)"
    by (simp_all add: ps3_def)
  have "\<forall>n<length ps3. in_bounds (ps3 ! n)"
  proof (intro allI impI)
    fix n assume n: "n < length ps3"
    show "in_bounds (ps3 ! n)"
    proof (cases "n = j")
      case True
      with pj show ?thesis by (simp add: in_bounds_def)
    next
      case False
      with n l3 pa(2) have "ps3 ! n = pa ! n" by (simp add: ps3_def)
      with pa(3) n l3 ib show ?thesis by (simp add: in_bounds_asked)
    qed
  qed
  from audit_null_iff[OF this] pj cap j l3
  have "wcnss_check_pool_lists (Some ps3) = Inl NullDeref" by auto
  with g pj show "\<exists>ps3. wcnss_prealloc_get alloc False (Some ps2) sz = Inr (0, Some ps3) \<and>
             pool_ptrs (ps3 ! j) = None \<and> table_capacity (ps3 ! j) = table_capacity (ps2 ! j) \<and>
             wcnss_check_pool_lists (Some ps3) = Inl NullDeref"
    by blast
qed

theorem audit_reads_absent_table_witness:
  "(\<exists>out. wcnss_check_pool_lists (Some two_tiers) = Inr (out, Some two_tiers)) \<and>
   wcnss_check_pool_lists (Some small_tier_lost) = Inl NullDeref \<and>
   (\<exists>ps1. cnss_pool_init kernel_no_table (Some cnss_pools_default) = Inr (Some ps1) \<and>
          mp (ps1 ! 1) \<noteq> None \<and> pool_ptrs (ps1 ! 1) = None \<and>
          table_capacity (ps1 ! 1) = min_f (cnss_pools_default ! 1) \<and>
          wcnss_check_pool_lists (Some ps1) = Inl NullDeref) \<and>
   (\<exists>ps3. wcnss_prealloc_get (gives 11) False (Some small_tier_full) 8192 = Inr (0, Some ps3) \<and>
          pool_ptrs (ps3 ! 0) = None \<and> table_capacity (ps3 ! 0) = table_capacity (small_tier_full ! 0) \<and>
          wcnss_check_pool_lists (Some ps3) = Inl NullDeref)"
proof -
  have a: "\<forall>p\<in>set two_tiers. table_present p"
    by (simp add: two_tiers_def ready_tier_def table_present_def)
  have b: "\<forall>n<length small_tier_lost. in_bounds (small_tier_lost ! n)"
    by (auto simp: small_tier_lost_def ready_tier_def in_bounds_def nth_Cons')
  have b': "\<exists>i<length small_tier_lost. pool_ptrs (small_tier_lost ! i) = None \<and>
      0 < table_capacity (small_tier_lost ! i)"
    by (intro exI[of _ 0]) (simp add: small_tier_lost_def ready_tier_def)
  have c: "1 < length cnss_pools_default \<and> (\<forall>p\<in>set cnss_pools_default. pool_ptrs p = None) \<and>
      0 < min_f (cnss_pools_default ! 1) \<and>
      cache_ok (kernel_no_table 1) \<and> mempool_ok (kernel_no_table 1) \<and>
      kmalloc_res (kernel_no_table 1) = None"
    by (simp add: cnss_pools_default_def mk_pool_def kernel_no_table_def)
  have d: "0 < length small_tier_full \<and> size_f (hd small_tier_full) \<le> 8192 \<and>
      (\<forall>n<length small_tier_full. in_bounds (small_tier_full ! n)) \<and>
      eligible 8192 (small_tier_full ! 0) \<and> table_present (small_tier_full ! 0) \<and>
      0 \<notin> set (slots (small_tier_full ! 0)) \<and> 0 < table_capacity (small_tier_full ! 0) \<and>
      (\<forall>n<0. eligible 8192 (small_tier_full ! n) \<longrightarrow>
          gives 11 n = 0 \<and> pool_ptrs (small_tier_full ! n) \<noteq> None) \<and>
      gives 11 0 \<noteq> 0"
    by (auto simp: small_tier_full_def ready_tier_def in_bounds_def eligible_def table_present_def
        slots_def gives_def nth_Cons')
  note i1 = audit_reads_absent_table[where ps=two_tiers]
  note i2 = audit_reads_absent_table[where ps=small_tier_lost]
  note i3 = audit_reads_absent_table[where ?ps0.0=cnss_pools_default and i=1 and env=kernel_no_table]
  note i4 = audit_reads_absent_table[where ?ps2.0=small_tier_full and j=0 and sz=8192 and alloc="gives 11"]
  from i1 a have "\<exists>out. wcnss_check_pool_lists (Some two_tiers) = Inr (out, Some two_tiers)"
    by blast
  moreover from i2 b b' have "wcnss_check_pool_lists (Some small_tier_lost) = Inl NullDeref"
    by blast
  moreover from i3 c have "\<exists>ps1. cnss_pool_init kernel_no_table (Some cnss_pools_default) = Inr (Some ps1) \<and>
          mp (ps1 ! 1) \<noteq> None \<and> pool_ptrs (ps1 ! 1) = None \<and>
          table_capacity (ps1 ! 1) = min_f (cnss_pools_default ! 1) \<and>
          wcnss_check_pool_lists (Some ps1) = Inl NullDeref"
    by blast
  moreover from i4 d have "\<exists>ps3. wcnss_prealloc_get (gives 11) False (Some small_tier_full) 8192 = Inr (0, Some ps3) \<and>
          pool_ptrs (ps3 ! 0) = None \<and> table_capacity (ps3 ! 0) = table_capacity (small_tier_full ! 0) \<and>
          wcnss_check_pool_lists (Some ps3) = Inl NullDeref"
    by blast
  ultimately show ?thesis by blast
qed
end
